theory Spec2Isabelle
  imports Complex_Main "HOL-Library.Word"
begin

section \<open>Machine types and the FreeRTOS tick interface\<close>

text \<open>
  \<open>uint32_t\<close> and \<open>TickType_t\<close> are 32-bit words: subtraction of tick stamps and the
  multiplication by 1000 wrap around as in C. The tick counter \<open>xTaskGetTickCount()\<close> is
  an input of every function that reads it (the argument \<open>current_ticks\<close> or \<open>now\<close>), and
  the configuration constant \<open>configTICK_RATE_HZ\<close> is the parameter \<open>hz\<close>.
\<close>

type_synonym u8 = "8 word"
type_synonym u32 = "32 word"
type_synonym u64 = "64 word"

text \<open>
  The macro \<open>pdMS_TO_TICKS(ms)\<close> belongs to FreeRTOS, not to the repository's files. It
  is taken as FreeRTOS defines it,
  \<open>(TickType_t)(((uint64_t)(ms) * (uint64_t)configTICK_RATE_HZ) / (uint64_t)1000U)\<close>:
  the product is formed in 64 bits and the quotient truncated to 32.
\<close>

definition pdMS_TO_TICKS :: "u32 \<Rightarrow> u32 \<Rightarrow> u32" where
  "pdMS_TO_TICKS hz xTimeInMs = ucast (((ucast xTimeInMs :: u64) * (ucast hz :: u64)) div 1000)"

text \<open>
  The recurring expression \<open>(ticks * 1000) / configTICK_RATE_HZ / 1000\<close> of timer.c, in
  32-bit unsigned arithmetic.
\<close>

definition ticks_to_seconds :: "u32 \<Rightarrow> u32 \<Rightarrow> u32" where
  "ticks_to_seconds hz ticks = ((ticks * 1000) div hz) div 1000"

section \<open>Single-precision arithmetic\<close>

text \<open>
  A \<open>float\<close> is modelled by the real number it denotes. Every arithmetic operation and
  every conversion from an integer rounds its exact result to a representable value;
  the rounding function \<open>rnd\<close> is a parameter of the model. Comparisons and constants
  are exact. NaN and the infinities do not arise in timer.c: its operands are
  converted tick counts and values between 0 and 1.
\<close>

definition fadd :: "(real \<Rightarrow> real) \<Rightarrow> real \<Rightarrow> real \<Rightarrow> real" where
  "fadd rnd a b = rnd (a + b)"

definition fsub :: "(real \<Rightarrow> real) \<Rightarrow> real \<Rightarrow> real \<Rightarrow> real" where
  "fsub rnd a b = rnd (a - b)"

definition fmul :: "(real \<Rightarrow> real) \<Rightarrow> real \<Rightarrow> real \<Rightarrow> real" where
  "fmul rnd a b = rnd (a * b)"

definition fdiv :: "(real \<Rightarrow> real) \<Rightarrow> real \<Rightarrow> real \<Rightarrow> real" where
  "fdiv rnd a b = rnd (a / b)"

definition float_of_u32 :: "(real \<Rightarrow> real) \<Rightarrow> u32 \<Rightarrow> real" where
  "float_of_u32 rnd w = rnd (real (unat w))"

text \<open>
  Rounding to nearest: \<open>rnd x\<close> is a representable value, and no representable value is
  closer to \<open>x\<close>. The set \<open>F\<close> of representable values is a parameter as well; nothing is
  said about ties. The finite single-precision values are \<open>binary32\<close>: a significand below
  \<open>2^24\<close> in absolute value, scaled by a power of two from \<open>2^-149\<close> to \<open>2^104\<close>.
\<close>

definition rounds_to_nearest :: "real set \<Rightarrow> (real \<Rightarrow> real) \<Rightarrow> bool" where
  "rounds_to_nearest F rnd \<longleftrightarrow> (\<forall>x. rnd x \<in> F \<and> (\<forall>b\<in>F. \<bar>rnd x - x\<bar> \<le> \<bar>b - x\<bar>))"

definition binary32 :: "real set" where
  "binary32 = {x. \<exists>(m::int) (e::nat). \<bar>m\<bar> < 2 ^ 24 \<and> e \<le> 253 \<and> x = of_int m * 2 ^ e / 2 ^ 149}"

text \<open>
  The values the proofs about timer.c need to be representable: 0, the tick counts up to
  \<open>2^24\<close>, \<open>2^32\<close>, \<open>2^-32\<close> and the largest value below 1. All of them are in
  \<open>binary32\<close> (lemma \<open>timer_values_binary32\<close>).
\<close>

definition timer_values :: "real set" where
  "timer_values = {0, 2 ^ 32, 1 / 2 ^ 32, 1 - 1 / 2 ^ 24} \<union> real ` {n. n \<le> 2 ^ 24}"

text \<open>
  A rounding function for single precision: a value of \<open>binary32\<close> at the least distance
  from \<open>x\<close>, whichever way a tie is broken.
\<close>

definition nearest32 :: "real \<Rightarrow> real" where
  "nearest32 x = arg_min_on (\<lambda>a. \<bar>a - x\<bar>) binary32"

text \<open>The literal \<open>0.02f\<close>: the single-precision value nearest to 0.02.\<close>

definition TRANSITION_SPEED :: real where
  "TRANSITION_SPEED = 5368709 / 268435456"

section \<open>timer.h and timer.c: the session state machine\<close>

datatype timer_state_t =
    TIMER_STATE_IDLE
  | TIMER_STATE_RUNNING
  | TIMER_STATE_COMPLETED
  | TIMER_STATE_GRACE_PERIOD
  | TIMER_STATE_ALERTING

definition NUM_BUTTONS :: nat where
  "NUM_BUTTONS = 5"

definition TIMER_DURATION_5MIN :: u32 where
  "TIMER_DURATION_5MIN = 1"

definition TIMER_DURATION_15MIN :: u32 where
  "TIMER_DURATION_15MIN = 15"

definition TIMER_DURATION_30MIN :: u32 where
  "TIMER_DURATION_30MIN = 30"

definition TIMER_DURATION_45MIN :: u32 where
  "TIMER_DURATION_45MIN = 45"

definition TIMER_DURATION_60MIN :: u32 where
  "TIMER_DURATION_60MIN = 60"

definition GRACE_PERIOD_SECONDS :: u32 where
  "GRACE_PERIOD_SECONDS = 60"

definition ALERT_DURATION_SECONDS :: u32 where
  "ALERT_DURATION_SECONDS = 60"

text \<open>The table \<open>timer_durations[NUM_BUTTONS]\<close>, indexed by button.\<close>

definition timer_durations :: "u32 list" where
  "timer_durations =
     [TIMER_DURATION_5MIN, TIMER_DURATION_15MIN, TIMER_DURATION_30MIN,
      TIMER_DURATION_45MIN, TIMER_DURATION_60MIN]"

text \<open>The file-scope variables of timer.c.\<close>

record timer =
  timer_state :: timer_state_t
  timer_duration_seconds :: u32
  timer_start_time_ticks :: u32
  grace_period_start_ticks :: u32
  alert_start_ticks :: u32
  current_progress :: real
  target_progress :: real

definition timer_init :: timer where
  "timer_init =
     \<lparr> timer_state = TIMER_STATE_IDLE,
       timer_duration_seconds = 0,
       timer_start_time_ticks = 0,
       grace_period_start_ticks = 0,
       alert_start_ticks = 0,
       current_progress = 0,
       target_progress = 0 \<rparr>"

definition timer_stop :: "timer \<Rightarrow> timer" where
  "timer_stop s =
     (if timer_state s = TIMER_STATE_IDLE then s
      else s\<lparr> timer_state := TIMER_STATE_IDLE,
              timer_duration_seconds := 0,
              timer_start_time_ticks := 0,
              grace_period_start_ticks := 0,
              alert_start_ticks := 0,
              current_progress := 0,
              target_progress := 0 \<rparr>)"

definition timer_reset :: "timer \<Rightarrow> timer" where
  "timer_reset s = timer_stop s"

text \<open>
  The validation loop of \<open>timer_start\<close>: scan the table from index 0 and stop at the
  first entry equal to the request.
\<close>

fun valid_duration :: "u32 list \<Rightarrow> u32 \<Rightarrow> bool" where
  "valid_duration [] duration_minutes = False"
| "valid_duration (d # ds) duration_minutes =
     (if d = duration_minutes then True else valid_duration ds duration_minutes)"

definition timer_start :: "u32 \<Rightarrow> u32 \<Rightarrow> timer \<Rightarrow> bool \<times> timer" where
  "timer_start duration_minutes now s =
     (if \<not> valid_duration timer_durations duration_minutes then (False, s)
      else (True, (timer_stop s)\<lparr> timer_duration_seconds := duration_minutes * 60,
                                  timer_start_time_ticks := now,
                                  timer_state := TIMER_STATE_RUNNING,
                                  current_progress := 0,
                                  target_progress := 0 \<rparr>))"

definition timer_get_state :: "timer \<Rightarrow> timer_state_t" where
  "timer_get_state s = timer_state s"

definition timer_get_progress :: "timer \<Rightarrow> real" where
  "timer_get_progress s = current_progress s"

definition timer_get_remaining_seconds :: "u32 \<Rightarrow> u32 \<Rightarrow> timer \<Rightarrow> u32" where
  "timer_get_remaining_seconds hz current_ticks s =
     (if timer_state s \<noteq> TIMER_STATE_RUNNING then 0
      else let elapsed_ticks = current_ticks - timer_start_time_ticks s;
               elapsed_seconds = ticks_to_seconds hz elapsed_ticks
           in if elapsed_seconds \<ge> timer_duration_seconds s then 0
              else timer_duration_seconds s - elapsed_seconds)"

text \<open>
  \<open>timer_update\<close>. In the Running case the target is computed first, then the smoothing
  and the clamp run whichever branch was taken, as in the source. \<open>clamp_progress\<close> is
  the pair of statements under the comment "Clamp to valid range".
\<close>

definition clamp_progress :: "timer \<Rightarrow> timer" where
  "clamp_progress s =
     (let s1 = (if current_progress s < 0 then s\<lparr> current_progress := 0 \<rparr> else s)
      in if current_progress s1 > 1 then s1\<lparr> current_progress := 1 \<rparr> else s1)"

definition timer_update :: "(real \<Rightarrow> real) \<Rightarrow> u32 \<Rightarrow> u32 \<Rightarrow> timer \<Rightarrow> timer" where
  "timer_update rnd hz current_ticks s =
     (case timer_state s of
        TIMER_STATE_IDLE \<Rightarrow> s
      | TIMER_STATE_RUNNING \<Rightarrow>
          (let elapsed_ticks = current_ticks - timer_start_time_ticks s;
               total_duration_ticks = pdMS_TO_TICKS hz (timer_duration_seconds s * 1000);
               s1 = (if elapsed_ticks \<ge> total_duration_ticks
                     then s\<lparr> target_progress := 1,
                             timer_state := TIMER_STATE_COMPLETED,
                             grace_period_start_ticks := current_ticks \<rparr>
                     else let elapsed_ticks = (if elapsed_ticks = 0 then 1 else elapsed_ticks)
                          in s\<lparr> target_progress :=
                                    fdiv rnd (float_of_u32 rnd elapsed_ticks)
                                             (float_of_u32 rnd total_duration_ticks) \<rparr>);
               progress_diff = fsub rnd (target_progress s1) (current_progress s1);
               s2 = s1\<lparr> current_progress :=
                           fadd rnd (current_progress s1)
                                    (fmul rnd progress_diff TRANSITION_SPEED) \<rparr>
           in clamp_progress s2)
      | TIMER_STATE_COMPLETED \<Rightarrow>
          (let s1 = s\<lparr> current_progress := 1, target_progress := 1 \<rparr>;
               grace_elapsed_ticks = current_ticks - grace_period_start_ticks s1;
               grace_elapsed_seconds = ticks_to_seconds hz grace_elapsed_ticks
           in if grace_elapsed_seconds \<ge> GRACE_PERIOD_SECONDS
              then s1\<lparr> timer_state := TIMER_STATE_ALERTING,
                        alert_start_ticks := current_ticks \<rparr>
              else s1)
      | TIMER_STATE_GRACE_PERIOD \<Rightarrow> s
      | TIMER_STATE_ALERTING \<Rightarrow>
          (let alert_elapsed_ticks = current_ticks - alert_start_ticks s;
               alert_elapsed_seconds = ticks_to_seconds hz alert_elapsed_ticks
           in if alert_elapsed_seconds \<ge> ALERT_DURATION_SECONDS
              then s\<lparr> timer_state := TIMER_STATE_IDLE,
                       current_progress := 0,
                       target_progress := 0 \<rparr>
              else s))"

text \<open>
  \<open>timer_handle_button\<close>. The call \<open>timer_start(duration)\<close> reads the tick counter; its
  boolean result is dropped.
\<close>

definition timer_handle_button :: "u8 \<Rightarrow> bool \<Rightarrow> u32 \<Rightarrow> timer \<Rightarrow> timer" where
  "timer_handle_button button_id is_long_press now s =
     (if unat button_id \<ge> NUM_BUTTONS then s
      else case timer_state s of
        TIMER_STATE_IDLE \<Rightarrow>
          (if \<not> is_long_press
           then snd (timer_start (timer_durations ! unat button_id) now s)
           else s)
      | TIMER_STATE_RUNNING \<Rightarrow> (if \<not> is_long_press then timer_stop s else s)
      | TIMER_STATE_COMPLETED \<Rightarrow> timer_reset s
      | TIMER_STATE_GRACE_PERIOD \<Rightarrow> timer_reset s
      | TIMER_STATE_ALERTING \<Rightarrow> timer_reset s)"

text \<open>
  The target a Running tick computes before the session's end, as a function of the
  session's length and the elapsed time, both in ticks.
\<close>

definition running_target :: "(real \<Rightarrow> real) \<Rightarrow> u32 \<Rightarrow> u32 \<Rightarrow> real" where
  "running_target rnd total_duration_ticks elapsed_ticks =
     fdiv rnd (float_of_u32 rnd (if elapsed_ticks = 0 then 1 else elapsed_ticks))
              (float_of_u32 rnd total_duration_ticks)"

text \<open>
  The invariant of a running session started at tick \<open>t0\<close> for \<open>seconds\<close> seconds, after a
  tick at elapsed time \<open>elapsed\<close>: the smoothed progress is a representable value between
  0 and 1 that has not overtaken the target of that tick.
\<close>

definition running_inv ::
  "real set \<Rightarrow> (real \<Rightarrow> real) \<Rightarrow> u32 \<Rightarrow> u32 \<Rightarrow> u32 \<Rightarrow> u32 \<Rightarrow> timer \<Rightarrow> bool" where
  "running_inv F rnd hz t0 seconds elapsed s \<longleftrightarrow>
     (timer_state s = TIMER_STATE_RUNNING \<longrightarrow>
        timer_start_time_ticks s = t0 \<and> timer_duration_seconds s = seconds \<and>
        current_progress s \<in> F \<and> 0 \<le> current_progress s \<and> current_progress s \<le> 1 \<and>
        current_progress s \<le> running_target rnd (pdMS_TO_TICKS hz (seconds * 1000)) elapsed)"

text \<open>
  A call of the timer's interface, with the tick count it reads, and the effect of a
  sequence of calls on the timer's variables.
\<close>

datatype timer_call =
    Call_timer_start u32 u32
  | Call_timer_stop
  | Call_timer_reset
  | Call_timer_update u32
  | Call_timer_handle_button u8 bool u32

fun do_call :: "(real \<Rightarrow> real) \<Rightarrow> u32 \<Rightarrow> timer_call \<Rightarrow> timer \<Rightarrow> timer" where
  "do_call rnd hz (Call_timer_start duration_minutes now) s =
     snd (timer_start duration_minutes now s)"
| "do_call rnd hz Call_timer_stop s = timer_stop s"
| "do_call rnd hz Call_timer_reset s = timer_reset s"
| "do_call rnd hz (Call_timer_update now) s = timer_update rnd hz now s"
| "do_call rnd hz (Call_timer_handle_button button_id is_long_press now) s =
     timer_handle_button button_id is_long_press now s"

section \<open>button.h and button.c: the input classifier\<close>

datatype button_press_type_t = BUTTON_PRESS_SHORT | BUTTON_PRESS_LONG

definition BUTTON_SW0_GPIO :: u8 where "BUTTON_SW0_GPIO = 10"
definition BUTTON_SW1_GPIO :: u8 where "BUTTON_SW1_GPIO = 5"
definition BUTTON_SW2_GPIO :: u8 where "BUTTON_SW2_GPIO = 4"
definition BUTTON_SW3_GPIO :: u8 where "BUTTON_SW3_GPIO = 14"
definition BUTTON_SW4_GPIO :: u8 where "BUTTON_SW4_GPIO = 13"

definition button_gpios :: "u8 list" where
  "button_gpios =
     [BUTTON_SW0_GPIO, BUTTON_SW1_GPIO, BUTTON_SW2_GPIO, BUTTON_SW3_GPIO, BUTTON_SW4_GPIO]"

definition DEBOUNCE_MS :: u32 where "DEBOUNCE_MS = 50"
definition LONG_PRESS_MS :: u32 where "LONG_PRESS_MS = 500"

record button_state_t =
  gpio :: u8
  pressed :: bool
  press_start_time :: u32
  event_sent :: bool

record gpio_event_t =
  gpio_num :: u32
  level :: u32

text \<open>
  The variables of button.c: the array \<open>button_states\<close> and the array
  \<open>last_debounce_time\<close> of \<open>button_task\<close> (both indexed by button, 0 to 4), and whether a
  callback is registered (\<open>event_callback != NULL\<close>). A call of the callback is an
  element of the list of events a step returns: the button index and the press type.
\<close>

record buttons =
  button_states :: "nat \<Rightarrow> button_state_t"
  last_debounce_time :: "nat \<Rightarrow> u32"
  event_callback :: bool

type_synonym button_event = "nat \<times> button_press_type_t"

text \<open>\<open>find_button_index\<close>: the first index whose pin is the given one; \<open>None\<close> for -1.\<close>

fun find_index_from :: "nat \<Rightarrow> u8 list \<Rightarrow> u8 \<Rightarrow> nat option" where
  "find_index_from i [] g = None"
| "find_index_from i (p # ps) g = (if p = g then Some i else find_index_from (Suc i) ps g)"

definition find_button_index :: "u8 \<Rightarrow> nat option" where
  "find_button_index g = find_index_from 0 button_gpios g"

text \<open>The expression \<open>(press_duration * 1000) / configTICK_RATE_HZ\<close>.\<close>

definition press_duration_ms :: "u32 \<Rightarrow> u32 \<Rightarrow> u32" where
  "press_duration_ms hz press_duration = (press_duration * 1000) div hz"

text \<open>
  One iteration of the loop of \<open>button_task\<close>: an event received from the queue, processed
  at tick count \<open>current_time\<close>. The argument of \<open>find_button_index\<close> is a \<open>uint8_t\<close>, so
  the event's pin number is truncated to 8 bits.
\<close>

definition button_task :: "u32 \<Rightarrow> u32 \<Rightarrow> gpio_event_t \<Rightarrow> buttons \<Rightarrow> buttons \<times> button_event list" where
  "button_task hz current_time event st =
     (case find_button_index (ucast (gpio_num event)) of
        None \<Rightarrow> (st, [])
      | Some button_idx \<Rightarrow>
          (let btn = button_states st button_idx in
           if current_time - last_debounce_time st button_idx > pdMS_TO_TICKS hz DEBOUNCE_MS
           then
             (let st1 = st\<lparr> last_debounce_time := (last_debounce_time st)(button_idx := current_time) \<rparr>
              in if level event = 1
                 then (st1\<lparr> button_states := (button_states st1)
                              (button_idx := btn\<lparr> pressed := True,
                                                   press_start_time := current_time,
                                                   event_sent := False \<rparr>) \<rparr>, [])
                 else if pressed btn
                 then
                   (let press_duration = current_time - press_start_time btn;
                        press_type = (if press_duration_ms hz press_duration \<ge> LONG_PRESS_MS
                                      then BUTTON_PRESS_LONG else BUTTON_PRESS_SHORT)
                    in (st1\<lparr> button_states := (button_states st1)
                                 (button_idx := btn\<lparr> pressed := False, event_sent := False \<rparr>) \<rparr>,
                        if \<not> event_sent btn \<and> event_callback st1
                        then [(button_idx, press_type)] else []))
                 else (st1, []))
           else (st, [])))"

text \<open>
  One iteration of the loop of \<open>button_long_press_check_task\<close>, at tick count
  \<open>current_time\<close>: the body of its \<open>for\<close> loop for button \<open>i\<close>, and the loop over the
  buttons 0 to 4.
\<close>

definition long_press_check ::
  "u32 \<Rightarrow> u32 \<Rightarrow> nat \<Rightarrow> buttons \<times> button_event list \<Rightarrow> buttons \<times> button_event list" where
  "long_press_check hz current_time i acc =
     (let st = fst acc; btn = button_states st i in
      if pressed btn \<and> \<not> event_sent btn
      then
        (let press_duration = current_time - press_start_time btn in
         if press_duration_ms hz press_duration \<ge> LONG_PRESS_MS
         then (st\<lparr> button_states := (button_states st)(i := btn\<lparr> event_sent := True \<rparr>) \<rparr>,
               snd acc @ (if event_callback st then [(i, BUTTON_PRESS_LONG)] else []))
         else acc)
      else acc)"

definition button_long_press_check_task :: "u32 \<Rightarrow> u32 \<Rightarrow> buttons \<Rightarrow> buttons \<times> button_event list" where
  "button_long_press_check_task hz current_time st =
     fold (long_press_check hz current_time) [0..<NUM_BUTTONS] (st, [])"

text \<open>
  The two tasks interleaved: a step is either an event taken from the queue by
  \<open>button_task\<close> or an iteration of the long-press sweep, each with the tick count it
  reads. \<open>button_run\<close> returns the final variables and the events in the order of their
  callbacks.
\<close>

datatype button_input = Gpio_event gpio_event_t u32 | Long_press_check u32

fun button_step :: "u32 \<Rightarrow> button_input \<Rightarrow> buttons \<Rightarrow> buttons \<times> button_event list" where
  "button_step hz (Gpio_event event current_time) st = button_task hz current_time event st"
| "button_step hz (Long_press_check current_time) st = button_long_press_check_task hz current_time st"

fun button_run :: "u32 \<Rightarrow> button_input list \<Rightarrow> buttons \<Rightarrow> buttons \<times> button_event list" where
  "button_run hz [] st = (st, [])"
| "button_run hz (x # xs) st =
     (let r1 = button_step hz x st; r2 = button_run hz xs (fst r1)
      in (fst r2, snd r1 @ snd r2))"

text \<open>The events of one button among the events of a run.\<close>

definition events_of :: "nat \<Rightarrow> button_event list \<Rightarrow> button_event list" where
  "events_of b evs = filter (\<lambda>e. fst e = b) evs"

text \<open>
  Vocabulary for traces: a step is an edge of button \<open>b\<close> when it is a queue event whose pin
  belongs to \<open>b\<close>; the sweep at tick \<open>t\<close> fires for a button when the button is held, no
  event was sent for the press, and the hold time the sweep computes has reached the
  threshold; a trace has crossed the threshold when one of its sweeps computes a hold time
  of at least \<open>LONG_PRESS_MS\<close> for a press begun at \<open>press_start\<close>.
\<close>

definition is_edge_of :: "nat \<Rightarrow> button_input \<Rightarrow> bool" where
  "is_edge_of b x =
     (case x of
        Gpio_event event current_time \<Rightarrow> find_button_index (ucast (gpio_num event)) = Some b
      | Long_press_check current_time \<Rightarrow> False)"

definition fires :: "u32 \<Rightarrow> u32 \<Rightarrow> button_state_t \<Rightarrow> bool" where
  "fires hz t btn \<longleftrightarrow>
     pressed btn \<and> \<not> event_sent btn \<and> press_duration_ms hz (t - press_start_time btn) \<ge> LONG_PRESS_MS"

definition crossed :: "u32 \<Rightarrow> u32 \<Rightarrow> button_input list \<Rightarrow> bool" where
  "crossed hz press_start mid \<longleftrightarrow>
     (\<exists>t. Long_press_check t \<in> set mid \<and>
          press_duration_ms hz (t - press_start) \<ge> LONG_PRESS_MS)"

text \<open>
  \<open>button_init\<close> and \<open>button_register_callback\<close>: the variables after initialisation
  (the static initialisers for what \<open>button_init\<close> does not assign), and the registration
  of a callback.
\<close>

definition button_init :: buttons where
  "button_init =
     \<lparr> button_states = (\<lambda>i. \<lparr> gpio = (if i < NUM_BUTTONS then button_gpios ! i else 0),
                               pressed = False, press_start_time = 0, event_sent = False \<rparr>),
       last_debounce_time = (\<lambda>i. 0),
       event_callback = False \<rparr>"

definition button_register_callback :: "buttons \<Rightarrow> buttons" where
  "button_register_callback st = st\<lparr> event_callback := True \<rparr>"

section \<open>led.c: the renderer's directives\<close>

text \<open>
  The file-scope variables of led.c that the directives read and write. The file has
  its own \<open>current_progress\<close> and \<open>target_progress\<close>, distinct from the timer's; they are
  the fields \<open>led_current_progress\<close> and \<open>led_target_progress\<close> here. The array
  \<open>led_colors\<close> is indexed by LED.
\<close>

record led =
  led_colors :: "nat \<Rightarrow> u32"
  target_intensity :: real
  current_intensity :: real
  led_target_progress :: real
  led_current_progress :: real
  progress_color :: u32
  pulsing_enabled :: bool
  solid_mode :: bool
  pending_solid_mode :: bool
  pending_solid_color :: u32
  pending_start_transition :: bool
  pending_start_color :: u32
  pending_start_progress :: real
  pulsing_color :: u32
  pulse_time_ms :: u32

text \<open>
  The outcome of the guard of every directive,
  \<open>led_mutex != NULL && xSemaphoreTake(led_mutex, pdMS_TO_TICKS(100)) == pdTRUE\<close>
  followed by \<open>else if (led_mutex == NULL)\<close>: the mutex was taken, there is no mutex, or
  the wait timed out. The first two run the same statements; the third runs nothing.
\<close>

datatype mutex_take = Mutex_taken | Mutex_null | Mutex_timeout

definition LED_COLOR_OFF :: u32 where
  "LED_COLOR_OFF = 0x000000"

definition LED_COLOR_GREEN :: u32 where
  "LED_COLOR_GREEN = 0xFF0000"

text \<open>
  The variables after \<open>led_init\<close>: what the function assigns, and the static initialisers
  for the rest.
\<close>

definition led_init :: led where
  "led_init =
     \<lparr> led_colors = (\<lambda>i. LED_COLOR_OFF),
       target_intensity = 1,
       current_intensity = 1,
       led_target_progress = 0,
       led_current_progress = 0,
       progress_color = LED_COLOR_GREEN,
       pulsing_enabled = False,
       solid_mode = False,
       pending_solid_mode = False,
       pending_solid_color = LED_COLOR_OFF,
       pending_start_transition = False,
       pending_start_color = LED_COLOR_OFF,
       pending_start_progress = 0,
       pulsing_color = LED_COLOR_OFF,
       pulse_time_ms = 0 \<rparr>"

definition led_clear_all :: "mutex_take \<Rightarrow> led \<Rightarrow> led" where
  "led_clear_all lock s =
     (case lock of
        Mutex_timeout \<Rightarrow> s
      | _ \<Rightarrow> s\<lparr> led_colors := (\<lambda>i. LED_COLOR_OFF),
                  solid_mode := True,
                  led_target_progress := 0,
                  led_current_progress := 0,
                  pulsing_enabled := False \<rparr>)"

text \<open>
  \<open>led_set_progress\<close>: the statements under the guard, with \<open>progress\<close> already clamped,
  and the function itself. The source writes the statements out twice, once for each
  branch of the guard that runs them. The \<open>float\<close> argument is a real number: the caller
  passes the timer's progress, which is never NaN.
\<close>

definition led_set_progress_locked :: "real \<Rightarrow> u32 \<Rightarrow> led \<Rightarrow> led" where
  "led_set_progress_locked progress color s =
     (let s1 =
        (if solid_mode s
         then s\<lparr> solid_mode := False,
                 led_current_progress := 1,
                 progress_color := led_colors s 0,
                 led_target_progress := 0,
                 pending_start_transition := True,
                 pending_start_color := color,
                 pending_start_progress := progress \<rparr>
         else if pending_start_transition s
         then s\<lparr> pending_start_progress := progress \<rparr>
         else s\<lparr> led_target_progress := progress, progress_color := color \<rparr>)
      in s1\<lparr> pulsing_enabled := False, pending_solid_mode := False \<rparr>)"

definition led_set_progress :: "mutex_take \<Rightarrow> real \<Rightarrow> u32 \<Rightarrow> led \<Rightarrow> led" where
  "led_set_progress lock progress color s =
     (let progress = (if progress < 0 then 0 else progress);
          progress = (if progress > 1 then 1 else progress)
      in case lock of
           Mutex_taken \<Rightarrow> led_set_progress_locked progress color s
         | Mutex_null \<Rightarrow> led_set_progress_locked progress color s
         | Mutex_timeout \<Rightarrow> s)"

section \<open>Properties of the session state machine\<close>

lemma timer_durations_values: "timer_durations = [1, 15, 30, 45, 60]"
  by (simp add: timer_durations_def TIMER_DURATION_5MIN_def TIMER_DURATION_15MIN_def
      TIMER_DURATION_30MIN_def TIMER_DURATION_45MIN_def TIMER_DURATION_60MIN_def)

lemma valid_duration_iff: "valid_duration ds d \<longleftrightarrow> d \<in> set ds"
  by (induction ds) auto

lemma timer_start_accepts:
  assumes "d \<in> set timer_durations"
  shows "timer_start d now s =
     (True, (timer_stop s)\<lparr> timer_duration_seconds := d * 60,
                             timer_start_time_ticks := now,
                             timer_state := TIMER_STATE_RUNNING,
                             current_progress := 0,
                             target_progress := 0 \<rparr>)"
  using assms by (simp add: timer_start_def valid_duration_iff)

lemma timer_stop_eq: "timer_state s \<noteq> TIMER_STATE_IDLE \<Longrightarrow> timer_stop s = timer_init"
  by (simp add: timer_stop_def timer_init_def)

lemma timer_stop_idle: "timer_state s = TIMER_STATE_IDLE \<Longrightarrow> timer_stop s = s"
  by (simp add: timer_stop_def)

lemma timer_stop_state: "timer_state (timer_stop s) = TIMER_STATE_IDLE"
  by (simp add: timer_stop_def)

lemma timer_start_state:
  "timer_state (snd (timer_start d now s)) = TIMER_STATE_RUNNING
   \<or> snd (timer_start d now s) = s"
  by (simp add: timer_start_def)

lemma clamp_progress_state: "timer_state (clamp_progress s) = timer_state s"
  by (simp add: clamp_progress_def Let_def)

subsection \<open>Starting a session\<close>

text \<open>
  From Idle, every duration in the table starts a session: the state becomes Running,
  the duration is the request times 60, and at the tick of the start the remaining time
  is that many seconds.
\<close>

lemma ticks_to_seconds_0: "ticks_to_seconds hz 0 = 0"
  by (simp add: ticks_to_seconds_def)

lemma timer_start_preset_from_idle:
  assumes "d \<in> set timer_durations" and "timer_state s = TIMER_STATE_IDLE"
  shows "fst (timer_start d now s)"
    and "timer_get_state (snd (timer_start d now s)) = TIMER_STATE_RUNNING"
    and "timer_duration_seconds (snd (timer_start d now s)) = d * 60"
    and "timer_get_remaining_seconds hz now (snd (timer_start d now s)) = d * 60"
proof -
  have n: "d * 60 \<noteq> 0" using assms(1) by (auto simp: timer_durations_values)
  show "fst (timer_start d now s)" "timer_get_state (snd (timer_start d now s)) = TIMER_STATE_RUNNING"
    "timer_duration_seconds (snd (timer_start d now s)) = d * 60"
    using assms by (simp_all add: timer_start_accepts timer_get_state_def)
  show "timer_get_remaining_seconds hz now (snd (timer_start d now s)) = d * 60"
    using assms n
    by (simp add: timer_start_accepts timer_get_remaining_seconds_def ticks_to_seconds_0
        word_le_nat_alt unat_eq_zero)
qed

text \<open>
  Claim C1 (the presets 5, 15, 30, 45, 60 start a session of d*60 seconds; the table
  maps them to buttons 0 to 4). The table's entry for button 0 is
  \<open>TIMER_DURATION_5MIN\<close>, which timer.h defines as 1, so the request \<open>timer_start(5)\<close>
  is not found in the table: it returns false and leaves any state as it was; from the
  initial Idle state the timer stays Idle and reports 0 remaining seconds. The request
  \<open>timer_start(1)\<close> is the one that succeeds, with 60 seconds remaining.
\<close>

theorem timer_start_5_rejected:
  "timer_start 5 now s = (False, s) \<and> timer_durations ! 0 = 1
   \<and> timer_get_state (snd (timer_start 5 now timer_init)) = TIMER_STATE_IDLE
   \<and> timer_get_remaining_seconds hz now (snd (timer_start 5 now timer_init)) = 0
   \<and> timer_get_state (snd (timer_start 1 now timer_init)) = TIMER_STATE_RUNNING
   \<and> timer_get_remaining_seconds hz now (snd (timer_start 1 now timer_init)) = 60"
  by (simp add: timer_start_def timer_durations_values timer_get_state_def timer_init_def
      timer_get_remaining_seconds_def timer_stop_def ticks_to_seconds_0)

text \<open>
  The validation of \<open>timer_start\<close> rejects every duration outside the table
  \<open>timer_durations\<close> as the code defines it, from any state: it returns false and every
  variable of the timer is as before. With the table's first entry 1, that covers every
  request other than 1, 15, 30, 45 and 60; the request 7 is one of them.
\<close>

lemma timer_start_rejects_outside_table:
  "(d \<notin> set timer_durations \<longrightarrow> timer_start d now s = (False, s))
   \<and> timer_start 7 now s = (False, s)
   \<and> timer_get_state (snd (timer_start 7 now timer_init)) = TIMER_STATE_IDLE"
  by (simp add: timer_start_def valid_duration_iff timer_durations_values
      timer_get_state_def timer_init_def)

text \<open>
  Claim C2 (a duration that is not one of the presets 5, 15, 30, 45, 60 is rejected and
  leaves the timer unchanged). The duration 1 is not one of these presets, and it is the
  duration every short press of button 0 requests, yet \<open>timer_start(1)\<close> from the initial
  Idle state returns true and changes the timer: the state becomes Running with a
  duration of 60 seconds.
\<close>

theorem timer_start_1_accepted:
  "(1::u32) \<notin> {5, 15, 30, 45, 60}
   \<and> fst (timer_start 1 now timer_init)
   \<and> timer_get_state (snd (timer_start 1 now timer_init)) = TIMER_STATE_RUNNING
   \<and> timer_duration_seconds (snd (timer_start 1 now timer_init)) = 60
   \<and> snd (timer_start 1 now timer_init) \<noteq> timer_init"
proof -
  have "timer_state (snd (timer_start 1 now timer_init)) \<noteq> timer_state timer_init"
    by (simp add: timer_start_def timer_durations_values timer_init_def timer_stop_def)
  then have "snd (timer_start 1 now timer_init) \<noteq> timer_init" by auto
  then show ?thesis
    by (simp add: timer_start_def timer_durations_values timer_get_state_def timer_init_def
        timer_stop_def)
qed

subsection \<open>Button events\<close>

text \<open>
  \<open>timer_handle_button\<close> routes a press of a button 0..4 by state. In Idle a short press
  starts a session with the entry of \<open>timer_durations\<close> for that button (the timer's
  variables are those of the Idle state with the duration in seconds, the start stamp
  and the Running state written, both progress values 0) and a long press changes
  nothing. In Running a short press stops the timer. In Completed, GracePeriod and
  Alerting any press, short or long, resets it. Stopping and resetting leave the
  variables as \<open>timer_init\<close> sets them: Idle, duration 0, all stamps 0, progress 0.
\<close>

lemma timer_handle_button_routes:
  assumes "unat button_id < NUM_BUTTONS"
  shows "(timer_state s = TIMER_STATE_IDLE \<longrightarrow>
            timer_handle_button button_id False now s =
              s\<lparr> timer_duration_seconds := (timer_durations ! unat button_id) * 60,
                 timer_start_time_ticks := now,
                 timer_state := TIMER_STATE_RUNNING,
                 current_progress := 0,
                 target_progress := 0 \<rparr>
            \<and> timer_handle_button button_id True now s = s)
       \<and> (timer_state s = TIMER_STATE_RUNNING \<longrightarrow>
            timer_handle_button button_id False now s = timer_init)
       \<and> (timer_state s \<in> {TIMER_STATE_COMPLETED, TIMER_STATE_GRACE_PERIOD, TIMER_STATE_ALERTING} \<longrightarrow>
            timer_handle_button button_id is_long_press now s = timer_init)"
proof -
  have "timer_durations ! unat button_id \<in> set timer_durations"
    using assms by (intro nth_mem) (simp add: NUM_BUTTONS_def timer_durations_def)
  then show ?thesis
    using assms
    by (auto simp add: timer_handle_button_def timer_start_accepts timer_stop_idle
        timer_stop_eq timer_reset_def)
qed

text \<open>
  Claim C6 (in Idle a short press on button b starts a session with the preset duration
  of button b, the presets being 5, 15, 30, 45 and 60 minutes for buttons 0 to 4). A
  short press on button 0 in the initial Idle state starts a session of 60 seconds, not
  of 300: the table's entry for button 0 is 1 minute. At the tick of the press the
  remaining time is 60 seconds.
\<close>

theorem button_0_starts_60_seconds:
  "timer_handle_button 0 False now timer_init =
     timer_init\<lparr> timer_duration_seconds := 60, timer_start_time_ticks := now,
                 timer_state := TIMER_STATE_RUNNING \<rparr>
   \<and> timer_durations ! 0 * 60 = 60
   \<and> timer_get_remaining_seconds hz now (timer_handle_button 0 False now timer_init) = 60"
  by (simp add: timer_handle_button_def NUM_BUTTONS_def timer_start_def timer_durations_values
      timer_stop_def timer_init_def timer_get_remaining_seconds_def ticks_to_seconds_0)

subsection \<open>The GracePeriod state\<close>

lemma timer_update_state:
  "timer_state s \<noteq> TIMER_STATE_GRACE_PERIOD \<Longrightarrow>
   timer_state (timer_update rnd hz now s) \<noteq> TIMER_STATE_GRACE_PERIOD"
  by (simp add: timer_update_def Let_def clamp_progress_state split: timer_state_t.splits)

lemma timer_handle_button_state:
  "timer_state s \<noteq> TIMER_STATE_GRACE_PERIOD \<Longrightarrow>
   timer_state (timer_handle_button b l now s) \<noteq> TIMER_STATE_GRACE_PERIOD"
  using timer_start_state [of "timer_durations ! unat b" now s]
  by (auto simp add: timer_handle_button_def timer_reset_def timer_stop_state
      split: timer_state_t.splits)

lemma do_call_state:
  "timer_state s \<noteq> TIMER_STATE_GRACE_PERIOD \<Longrightarrow>
   timer_state (do_call rnd hz c s) \<noteq> TIMER_STATE_GRACE_PERIOD"
proof (cases c)
  case (Call_timer_start d now)
  assume "timer_state s \<noteq> TIMER_STATE_GRACE_PERIOD"
  then show ?thesis using timer_start_state [of d now s] Call_timer_start by auto
qed (simp_all add: timer_stop_state timer_reset_def timer_update_state timer_handle_button_state)

lemma fold_do_call_state:
  "timer_state s \<noteq> TIMER_STATE_GRACE_PERIOD \<Longrightarrow>
   timer_state (fold (do_call rnd hz) cs s) \<noteq> TIMER_STATE_GRACE_PERIOD"
  by (induction cs arbitrary: s) (simp_all add: do_call_state)

text \<open>
  Claim C10: after \<open>timer_init\<close>, no sequence of calls of \<open>timer_start\<close>, \<open>timer_stop\<close>,
  \<open>timer_reset\<close>, \<open>timer_update\<close> and \<open>timer_handle_button\<close>, with any arguments and at
  any tick counts, makes \<open>timer_get_state\<close> return \<open>TIMER_STATE_GRACE_PERIOD\<close>: no
  function assigns that state.
\<close>

theorem grace_period_unreachable:
  "timer_get_state (fold (do_call rnd hz) calls timer_init) \<noteq> TIMER_STATE_GRACE_PERIOD"
  unfolding timer_get_state_def
  by (rule fold_do_call_state) (simp add: timer_init_def)

subsection \<open>The grace and alert windows\<close>

lemma ticks_to_seconds_nowrap:
  assumes "hz \<noteq> 0" and "unat ticks * 1000 < 2 ^ 32"
  shows "unat (ticks_to_seconds hz ticks) = unat ticks div unat hz"
proof -
  have m: "unat (ticks * 1000) = unat ticks * 1000"
    using assms(2) by (simp add: unat_word_ariths)
  have "unat (ticks_to_seconds hz ticks) = (unat ticks * 1000) div unat hz div 1000"
    by (simp add: ticks_to_seconds_def unat_div m)
  also have "\<dots> = (unat ticks * 1000) div (1000 * unat hz)"
    by (simp add: div_mult2_eq mult.commute)
  also have "\<dots> = unat ticks div unat hz"
    by simp
  finally show ?thesis .
qed

lemma ticks_to_seconds_ge_60:
  assumes "hz \<noteq> 0" and "unat ticks * 1000 < 2 ^ 32"
  shows "ticks_to_seconds hz ticks \<ge> 60 \<longleftrightarrow> 60 * unat hz \<le> unat ticks"
proof -
  have "0 < unat hz" using assms(1) by (simp add: unat_gt_0)
  then have "60 \<le> unat ticks div unat hz \<longleftrightarrow> 60 * unat hz \<le> unat ticks"
    by (simp add: less_eq_div_iff_mult_less_eq)
  then show ?thesis
    using ticks_to_seconds_nowrap [OF assms] by (simp add: word_le_nat_alt)
qed

text \<open>
  Claim C5: a tick of \<open>timer_update\<close> with no button event. Sixty seconds are
  \<open>60 * hz\<close> ticks. In Completed, a tick at which at least that many ticks have passed
  since \<open>grace_period_start_ticks\<close> moves the state to Alerting and records the current
  tick count in \<open>alert_start_ticks\<close>; an earlier tick keeps the state (and pins both
  progress values at 1). In Alerting, a tick at which at least that many ticks have
  passed since \<open>alert_start_ticks\<close> moves the state to Idle with both progress values 0;
  an earlier tick changes nothing. The tick rate is not 0, and the elapsed tick count
  times 1000 fits in 32 bits, so that the source's product does not wrap.
\<close>

theorem grace_and_alert_windows:
  assumes "hz \<noteq> 0"
  shows "(timer_state s = TIMER_STATE_COMPLETED \<and>
            unat (now - grace_period_start_ticks s) * 1000 < 2 ^ 32 \<longrightarrow>
            (if 60 * unat hz \<le> unat (now - grace_period_start_ticks s)
             then timer_update rnd hz now s =
                    s\<lparr> current_progress := 1, target_progress := 1,
                       timer_state := TIMER_STATE_ALERTING, alert_start_ticks := now \<rparr>
             else timer_update rnd hz now s = s\<lparr> current_progress := 1, target_progress := 1 \<rparr>))
       \<and> (timer_state s = TIMER_STATE_ALERTING \<and>
            unat (now - alert_start_ticks s) * 1000 < 2 ^ 32 \<longrightarrow>
            (if 60 * unat hz \<le> unat (now - alert_start_ticks s)
             then timer_update rnd hz now s =
                    s\<lparr> timer_state := TIMER_STATE_IDLE, current_progress := 0, target_progress := 0 \<rparr>
             else timer_update rnd hz now s = s))"
  using assms
  by (simp add: timer_update_def Let_def GRACE_PERIOD_SECONDS_def ALERT_DURATION_SECONDS_def
      ticks_to_seconds_ge_60)

theorem grace_and_alert_windows_witness:
  "timer_update (\<lambda>x. x) 100 7000
     (timer_init\<lparr> timer_state := TIMER_STATE_COMPLETED, grace_period_start_ticks := 1000 \<rparr>)
   = timer_init\<lparr> timer_state := TIMER_STATE_ALERTING, grace_period_start_ticks := 1000,
                 alert_start_ticks := 7000, current_progress := 1, target_progress := 1 \<rparr>
   \<and> timer_state (timer_update (\<lambda>x. x) 100 6999
        (timer_init\<lparr> timer_state := TIMER_STATE_COMPLETED, grace_period_start_ticks := 1000 \<rparr>))
     = TIMER_STATE_COMPLETED
   \<and> timer_update (\<lambda>x. x) 100 13000
        (timer_init\<lparr> timer_state := TIMER_STATE_ALERTING, alert_start_ticks := 7000,
                     current_progress := 1, target_progress := 1 \<rparr>)
     = timer_init\<lparr> alert_start_ticks := 7000 \<rparr>
   \<and> timer_state (timer_update (\<lambda>x. x) 100 12999
        (timer_init\<lparr> timer_state := TIMER_STATE_ALERTING, alert_start_ticks := 7000 \<rparr>))
     = TIMER_STATE_ALERTING"
  using grace_and_alert_windows
      [of 100 "timer_init\<lparr> timer_state := TIMER_STATE_COMPLETED, grace_period_start_ticks := 1000 \<rparr>"
          7000 "\<lambda>x. x"]
    grace_and_alert_windows
      [of 100 "timer_init\<lparr> timer_state := TIMER_STATE_COMPLETED, grace_period_start_ticks := 1000 \<rparr>"
          6999 "\<lambda>x. x"]
    grace_and_alert_windows
      [of 100 "timer_init\<lparr> timer_state := TIMER_STATE_ALERTING, alert_start_ticks := 7000,
                     current_progress := 1, target_progress := 1 \<rparr>"
          13000 "\<lambda>x. x"]
    grace_and_alert_windows
      [of 100 "timer_init\<lparr> timer_state := TIMER_STATE_ALERTING, alert_start_ticks := 7000 \<rparr>"
          12999 "\<lambda>x. x"]
  by (simp add: timer_init_def)

section \<open>Properties of the progress computation\<close>

subsection \<open>Rounding to nearest\<close>

lemma rnd_fix: "rounds_to_nearest F rnd \<Longrightarrow> x \<in> F \<Longrightarrow> rnd x = x"
proof -
  assume r: "rounds_to_nearest F rnd" and x: "x \<in> F"
  have "\<bar>rnd x - x\<bar> \<le> \<bar>x - x\<bar>"
    using r x unfolding rounds_to_nearest_def by blast
  then show ?thesis by simp
qed

lemma rnd_in: "rounds_to_nearest F rnd \<Longrightarrow> rnd x \<in> F"
  unfolding rounds_to_nearest_def by blast

lemma rnd_idem: "rounds_to_nearest F rnd \<Longrightarrow> rnd (rnd x) = rnd x"
  by (simp add: rnd_fix rnd_in)

lemma rnd_mono:
  assumes "rounds_to_nearest F rnd" and "x \<le> y"
  shows "rnd x \<le> rnd y"
proof (rule ccontr)
  assume "\<not> rnd x \<le> rnd y"
  then have lt: "rnd y < rnd x" by simp
  have "\<bar>rnd x - x\<bar> \<le> \<bar>rnd y - x\<bar>"
    using assms(1) unfolding rounds_to_nearest_def by blast
  moreover have "\<bar>rnd y - y\<bar> \<le> \<bar>rnd x - y\<bar>"
    using assms(1) unfolding rounds_to_nearest_def by blast
  moreover have "x \<noteq> y" using lt by auto
  ultimately show False using lt assms(2) by linarith
qed

lemma rnd_nonneg:
  assumes "rounds_to_nearest F rnd" and "0 \<in> F" and "0 \<le> x"
  shows "0 \<le> rnd x"
  using rnd_mono [OF assms(1) assms(3)] rnd_fix [OF assms(1) assms(2)] by simp

lemma rnd_le_twice:
  assumes "rounds_to_nearest F rnd" and "0 \<in> F" and "0 \<le> x"
  shows "rnd x \<le> 2 * x"
proof -
  have "\<bar>rnd x - x\<bar> \<le> \<bar>0 - x\<bar>"
    using assms(1,2) unfolding rounds_to_nearest_def by blast
  then show ?thesis using assms(3) by linarith
qed

text \<open>Exact arithmetic is the instance where every real is representable.\<close>

lemma exact_rounding: "rounds_to_nearest UNIV (\<lambda>x. x)"
  by (simp add: rounds_to_nearest_def)

lemma binary32_I:
  "\<bar>m\<bar> < 2 ^ 24 \<Longrightarrow> e \<le> 253 \<Longrightarrow> x = of_int m * 2 ^ e / 2 ^ 149 \<Longrightarrow> x \<in> binary32"
  unfolding binary32_def by blast

lemma timer_values_binary32: "timer_values \<subseteq> binary32"
proof -
  have z: "(0::real) \<in> binary32"
    by (rule binary32_I [of 0 0]) simp_all
  have a: "(2::real) ^ 32 \<in> binary32"
    by (rule binary32_I [of 1 181]) simp_all
  have b: "(1::real) / 2 ^ 32 \<in> binary32"
    by (rule binary32_I [of 1 117]) simp_all
  have c: "(1::real) - 1 / 2 ^ 24 \<in> binary32"
    by (rule binary32_I [of 16777215 125]) simp_all
  have d: "(2::real) ^ 24 \<in> binary32"
    by (rule binary32_I [of 1 173]) simp_all
  have "real n \<in> binary32" if "n \<le> 2 ^ 24" for n
  proof (cases "n = 2 ^ 24")
    case True then show ?thesis using d by simp
  next
    case False 
    then have "\<bar>int n\<bar> < 2 ^ 24" using that by simp
    then show ?thesis by (rule binary32_I [of "int n" 149]) simp_all
  qed
  then show ?thesis using z a b c by (auto simp: timer_values_def)
qed

text \<open>Single precision is an instance: \<open>nearest32\<close> rounds to nearest on \<open>binary32\<close>.\<close>

lemma finite_binary32: "finite binary32"
proof -
  let ?f = "\<lambda>p :: int \<times> nat. of_int (fst p) * 2 ^ snd p / (2 ^ 149 :: real)"
  have "x \<in> ?f ` ({- (2 ^ 24) .. 2 ^ 24} \<times> {.. 253})" if xb: "x \<in> binary32" for x
  proof -
    obtain m :: int and e :: nat where me: "\<bar>m\<bar> < 2 ^ 24" "e \<le> 253" "x = of_int m * 2 ^ e / 2 ^ 149"
      using xb unfolding binary32_def by blast
    have "(m, e) \<in> {- (2 ^ 24) .. 2 ^ 24} \<times> {.. 253}" using me(1,2) by auto
    moreover have "x = ?f (m, e)" using me(3) by simp
    ultimately show ?thesis by (rule rev_image_eqI)
  qed
  then have "binary32 \<subseteq> ?f ` ({- (2 ^ 24) .. 2 ^ 24} \<times> {.. 253})" by blast
  moreover have "finite (?f ` ({- (2 ^ 24) .. 2 ^ 24} \<times> {.. 253}))"
    by (intro finite_imageI finite_cartesian_product finite_atLeastAtMost_int finite_atMost)
  ultimately show ?thesis by (rule finite_subset)
qed


lemma zero_in_binary32: "0 \<in> binary32"
  by (rule binary32_I [of 0 0]) simp_all

lemma nearest32_rounds: "rounds_to_nearest binary32 nearest32"
proof -
  have ne: "binary32 \<noteq> {}" using zero_in_binary32 by blast
  have "nearest32 x \<in> binary32" for x
    unfolding nearest32_def by (rule arg_min_if_finite(1) [OF finite_binary32 ne])
  moreover have "\<bar>nearest32 x - x\<bar> \<le> \<bar>b - x\<bar>" if "b \<in> binary32" for x b
    unfolding nearest32_def
    by (rule arg_min_least [OF finite_binary32 ne that, of "\<lambda>a. \<bar>a - x\<bar>"])
  ultimately show ?thesis unfolding rounds_to_nearest_def by blast
qed

subsection \<open>One smoothing step\<close>

lemma TRANSITION_SPEED_bounds: "0 < TRANSITION_SPEED" "4 * TRANSITION_SPEED \<le> 1"
  by (simp_all add: TRANSITION_SPEED_def)

lemma smooth_step:
  assumes R: "rounds_to_nearest F rnd" and z: "0 \<in> F" and c: "c \<in> F" and T: "T \<in> F"
    and le: "c \<le> T"
  shows "c \<le> fadd rnd c (fmul rnd (fsub rnd T c) TRANSITION_SPEED)"
    and "fadd rnd c (fmul rnd (fsub rnd T c) TRANSITION_SPEED) \<le> T"
proof -
  define d where "d = rnd (T - c)"
  define inc where "inc = rnd (d * TRANSITION_SPEED)"
  have d0: "0 \<le> d" unfolding d_def using rnd_nonneg [OF R z, of "T - c"] le by simp
  have d2: "d \<le> 2 * (T - c)" unfolding d_def using rnd_le_twice [OF R z, of "T - c"] le by simp
  have dk: "0 \<le> d * TRANSITION_SPEED" using d0 TRANSITION_SPEED_bounds(1) by simp
  have i0: "0 \<le> inc" unfolding inc_def using rnd_nonneg [OF R z dk] .
  have "inc \<le> 2 * (d * TRANSITION_SPEED)" unfolding inc_def using rnd_le_twice [OF R z dk] .
  also have "\<dots> \<le> 2 * ((2 * (T - c)) * TRANSITION_SPEED)"
    using d2 TRANSITION_SPEED_bounds(1) by (simp add: mult_right_mono)
  also have "\<dots> = (T - c) * (4 * TRANSITION_SPEED)" by simp
  also have "\<dots> \<le> (T - c) * 1"
    using le TRANSITION_SPEED_bounds(2) by (intro mult_left_mono) simp_all
  finally have i1: "inc \<le> T - c" by simp
  have e: "fadd rnd c (fmul rnd (fsub rnd T c) TRANSITION_SPEED) = rnd (c + inc)"
    by (simp add: fadd_def fmul_def fsub_def d_def inc_def)
  have "rnd c \<le> rnd (c + inc)" using rnd_mono [OF R, of c "c + inc"] i0 by simp
  then show "c \<le> fadd rnd c (fmul rnd (fsub rnd T c) TRANSITION_SPEED)"
    using rnd_fix [OF R c] e by simp
  have "rnd (c + inc) \<le> rnd T" using rnd_mono [OF R, of "c + inc" T] i1 by simp
  then show "fadd rnd c (fmul rnd (fsub rnd T c) TRANSITION_SPEED) \<le> T"
    using rnd_fix [OF R T] e by simp
qed

lemma clamp_progress_id:
  "0 \<le> current_progress s \<Longrightarrow> current_progress s \<le> 1 \<Longrightarrow> clamp_progress s = s"
  by (simp add: clamp_progress_def)

lemma timer_update_completes:
  assumes R: "rounds_to_nearest F rnd" and z: "0 \<in> F" and o: "1 \<in> F"
    and run: "timer_state s = TIMER_STATE_RUNNING"
    and c: "current_progress s \<in> F" "0 \<le> current_progress s" "current_progress s \<le> 1"
    and fin: "pdMS_TO_TICKS hz (timer_duration_seconds s * 1000) \<le> now - timer_start_time_ticks s"
  shows "timer_update rnd hz now s =
           s\<lparr> target_progress := 1, timer_state := TIMER_STATE_COMPLETED,
              grace_period_start_ticks := now,
              current_progress := fadd rnd (current_progress s)
                (fmul rnd (fsub rnd 1 (current_progress s)) TRANSITION_SPEED) \<rparr>"
    and "current_progress s \<le> current_progress (timer_update rnd hz now s)"
    and "current_progress (timer_update rnd hz now s) \<le> 1"
proof -
  let ?c' = "fadd rnd (current_progress s) (fmul rnd (fsub rnd 1 (current_progress s)) TRANSITION_SPEED)"
  have b: "current_progress s \<le> ?c'" "?c' \<le> 1"
    using smooth_step [OF R z c(1) o c(3)] by simp_all
  then have b0: "0 \<le> ?c'" using c(2) by linarith
  show eq: "timer_update rnd hz now s =
           s\<lparr> target_progress := 1, timer_state := TIMER_STATE_COMPLETED,
              grace_period_start_ticks := now, current_progress := ?c' \<rparr>"
    using run fin b0 b(2) by (simp add: timer_update_def Let_def clamp_progress_id)
  show "current_progress s \<le> current_progress (timer_update rnd hz now s)"
    using b(1) by (simp add: eq)
  show "current_progress (timer_update rnd hz now s) \<le> 1"
    using b(2) by (simp add: eq)
qed

lemma timer_update_running:
  assumes R: "rounds_to_nearest F rnd" and z: "0 \<in> F"
    and run: "timer_state s = TIMER_STATE_RUNNING"
    and c: "current_progress s \<in> F" "0 \<le> current_progress s"
    and early: "now - timer_start_time_ticks s < pdMS_TO_TICKS hz (timer_duration_seconds s * 1000)"
    and T: "T = running_target rnd (pdMS_TO_TICKS hz (timer_duration_seconds s * 1000))
                  (now - timer_start_time_ticks s)"
    and le: "current_progress s \<le> T" "T \<le> 1"
  shows "timer_update rnd hz now s =
           s\<lparr> target_progress := T,
              current_progress := fadd rnd (current_progress s)
                (fmul rnd (fsub rnd T (current_progress s)) TRANSITION_SPEED) \<rparr>"
    and "current_progress s \<le> current_progress (timer_update rnd hz now s)"
    and "current_progress (timer_update rnd hz now s) \<le> T"
    and "current_progress (timer_update rnd hz now s) \<in> F"
proof -
  let ?c' = "fadd rnd (current_progress s) (fmul rnd (fsub rnd T (current_progress s)) TRANSITION_SPEED)"
  have TF: "T \<in> F" unfolding T running_target_def fdiv_def by (rule rnd_in [OF R])
  have b: "current_progress s \<le> ?c'" "?c' \<le> T"
    using smooth_step [OF R z c(1) TF le(1)] by simp_all
  then have b0: "0 \<le> ?c'" "?c' \<le> 1" using c(2) le(2) by linarith+
  have n: "\<not> pdMS_TO_TICKS hz (timer_duration_seconds s * 1000) \<le> now - timer_start_time_ticks s"
    using early by simp
  show eq: "timer_update rnd hz now s = s\<lparr> target_progress := T, current_progress := ?c' \<rparr>"
    using run n b0 unfolding T running_target_def
    by (simp add: timer_update_def Let_def clamp_progress_id)
  show "current_progress s \<le> current_progress (timer_update rnd hz now s)"
    using b(1) by (simp add: eq)
  show "current_progress (timer_update rnd hz now s) \<le> T"
    using b(2) by (simp add: eq)
  show "current_progress (timer_update rnd hz now s) \<in> F"
    by (simp add: eq fadd_def rnd_in [OF R])
qed

subsection \<open>The target of a Running tick\<close>

lemma unat_floor_one: "unat (if e = 0 then 1 else e :: u32) = max 1 (unat e)"
  by (simp add: unat_eq_zero max_def not_less_eq_eq)

lemma running_target_nat:
  "running_target rnd tot e = rnd (rnd (real (max 1 (unat e))) / rnd (real (unat tot)))"
  unfolding running_target_def fdiv_def float_of_u32_def unat_floor_one ..

lemma quotient_mono:
  assumes R: "rounds_to_nearest F rnd" and z: "0 \<in> F" and le: "(n::nat) \<le> n'"
  shows "rnd (rnd (real n) / rnd (real m)) \<le> rnd (rnd (real n') / rnd (real m))"
proof -
  have a: "rnd (real n) \<le> rnd (real n')" using le by (intro rnd_mono [OF R]) simp
  have b: "0 \<le> rnd (real m)" by (rule rnd_nonneg [OF R z]) simp
  show ?thesis by (intro rnd_mono [OF R] divide_right_mono a b)
qed

lemma quotient_nonneg:
  assumes R: "rounds_to_nearest F rnd" and z: "0 \<in> F"
  shows "0 \<le> rnd (rnd (real n) / rnd (real m))"
proof -
  have a: "0 \<le> rnd (real n)" by (rule rnd_nonneg [OF R z]) simp
  have b: "0 \<le> rnd (real m)" by (rule rnd_nonneg [OF R z]) simp
  show ?thesis by (intro rnd_nonneg [OF R z] divide_nonneg_nonneg a b)
qed

lemma rnd_nat_ge_1:
  assumes R: "rounds_to_nearest F rnd" and o: "1 \<in> F" and "1 \<le> (n::nat)"
  shows "1 \<le> rnd (real n)"
proof -
  have "rnd 1 \<le> rnd (real n)" using assms(3) by (intro rnd_mono [OF R]) simp
  then show ?thesis using rnd_fix [OF R o] by simp
qed

lemma quotient_le_1:
  assumes R: "rounds_to_nearest F rnd" and o: "1 \<in> F" and n: "1 \<le> (n::nat)" "n \<le> m"
  shows "rnd (rnd (real n) / rnd (real m)) \<le> 1"
proof -
  have a: "rnd (real n) \<le> rnd (real m)" using n(2) by (intro rnd_mono [OF R]) simp
  have b: "1 \<le> rnd (real m)" using n by (intro rnd_nat_ge_1 [OF R o]) simp
  have "rnd (real n) / rnd (real m) \<le> 1" using a b by (simp add: divide_le_eq_1)
  then have "rnd (rnd (real n) / rnd (real m)) \<le> rnd 1" by (rule rnd_mono [OF R])
  then show ?thesis using rnd_fix [OF R o] by simp
qed

lemma quotient_pos:
  assumes R: "rounds_to_nearest F rnd" and F: "timer_values \<subseteq> F"
    and n: "1 \<le> (n::nat)" "1 \<le> m" "m < 2 ^ 32"
  shows "0 < rnd (rnd (real n) / rnd (real m))"
proof -
  have o: "1 \<in> F" and p: "2 ^ 32 \<in> F" and q: "1 / 2 ^ 32 \<in> F"
    using F by (auto simp: timer_values_def)
  have a: "1 \<le> rnd (real n)" by (rule rnd_nat_ge_1 [OF R o n(1)])
  have b: "1 \<le> rnd (real m)" by (rule rnd_nat_ge_1 [OF R o n(2)])
  have "real m \<le> 2 ^ 32" using n(3) by (simp add: less_imp_le flip: of_nat_less_iff)
  then have "rnd (real m) \<le> rnd (2 ^ 32)" by (rule rnd_mono [OF R])
  then have c: "rnd (real m) \<le> 2 ^ 32" using rnd_fix [OF R p] by simp
  have "1 / 2 ^ 32 \<le> 1 / rnd (real m)"
    using b c by (intro divide_left_mono) simp_all
  also have "\<dots> \<le> rnd (real n) / rnd (real m)"
    using a b by (intro divide_right_mono) simp_all
  finally have "rnd (1 / 2 ^ 32) \<le> rnd (rnd (real n) / rnd (real m))"
    by (rule rnd_mono [OF R])
  then show ?thesis using rnd_fix [OF R q] by simp
qed

lemma quotient_lt_1:
  assumes R: "rounds_to_nearest F rnd" and F: "timer_values \<subseteq> F"
    and n: "(n::nat) < m" and small: "m \<le> 2 ^ 24"
  shows "rnd (rnd (real n) / rnd (real m)) < 1"
proof -
  have q: "1 - 1 / 2 ^ 24 \<in> F" using F by (auto simp: timer_values_def)
  have nF: "real n \<in> F" using F n small by (auto simp: timer_values_def)
  have mF: "real m \<in> F" using F small by (auto simp: timer_values_def)
  have m0: "0 < real m" using n by simp
  have "real n \<le> real m - 1" using n by linarith
  then have "real n / real m \<le> (real m - 1) / real m"
    by (intro divide_right_mono) simp_all
  also have "\<dots> = 1 - 1 / real m"
    using m0 by (simp add: diff_divide_distrib)
  also have "\<dots> \<le> 1 - 1 / 2 ^ 24"
  proof -
    have "real m \<le> 2 ^ 24" using small by (simp flip: of_nat_le_iff)
    then have "1 / 2 ^ 24 \<le> 1 / real m"
      using m0 by (intro divide_left_mono) simp_all
    then show ?thesis by simp
  qed
  finally have "rnd (real n / real m) \<le> rnd (1 - 1 / 2 ^ 24)"
    by (rule rnd_mono [OF R])
  then show ?thesis using rnd_fix [OF R q] rnd_fix [OF R nF] rnd_fix [OF R mF] by simp
qed

lemma running_target_mono:
  assumes "rounds_to_nearest F rnd" and "0 \<in> F" and "unat e \<le> unat e'"
  shows "running_target rnd tot e \<le> running_target rnd tot e'"
  unfolding running_target_nat using assms(3) by (intro quotient_mono [OF assms(1,2)]) simp

lemma running_target_nonneg:
  assumes "rounds_to_nearest F rnd" and "0 \<in> F"
  shows "0 \<le> running_target rnd tot e"
  unfolding running_target_nat by (rule quotient_nonneg [OF assms])

lemma running_target_le_1:
  assumes "rounds_to_nearest F rnd" and "1 \<in> F" and "e < tot"
  shows "running_target rnd tot e \<le> 1"
  unfolding running_target_nat using assms(3)
  by (intro quotient_le_1 [OF assms(1,2)]) (simp_all add: word_less_nat_alt)

lemma running_target_pos:
  assumes "rounds_to_nearest F rnd" and "timer_values \<subseteq> F" and "e < tot"
  shows "0 < running_target rnd tot e"
  unfolding running_target_nat using assms(3) unsigned_less [of tot]
  by (intro quotient_pos [OF assms(1,2)]) (simp_all add: word_less_nat_alt)

lemma running_target_lt_1:
  assumes "rounds_to_nearest F rnd" and "timer_values \<subseteq> F" and "e < tot"
    and "2 \<le> unat tot" and "unat tot \<le> 2 ^ 24"
  shows "running_target rnd tot e < 1"
  unfolding running_target_nat using assms(3,4,5)
  by (intro quotient_lt_1 [OF assms(1,2)]) (simp_all add: word_less_nat_alt)

subsection \<open>The invariant of a running session\<close>

lemma timer_update_leaves_running:
  "timer_state s \<noteq> TIMER_STATE_RUNNING \<Longrightarrow>
   timer_state (timer_update rnd hz now s) \<noteq> TIMER_STATE_RUNNING"
  by (simp add: timer_update_def Let_def split: timer_state_t.splits)

lemma running_inv_weaken:
  assumes R: "rounds_to_nearest F rnd" and z: "0 \<in> F"
    and inv: "running_inv F rnd hz t0 sec m s" and le: "unat m \<le> unat m'"
  shows "running_inv F rnd hz t0 sec m' s"
  using inv running_target_mono [OF R z le, of "pdMS_TO_TICKS hz (sec * 1000)"]
  unfolding running_inv_def by auto

lemma running_inv_step:
  assumes R: "rounds_to_nearest F rnd" and z: "0 \<in> F" and o: "1 \<in> F"
    and inv: "running_inv F rnd hz t0 sec m s" and le: "unat m \<le> unat (now - t0)"
  shows "running_inv F rnd hz t0 sec (now - t0) (timer_update rnd hz now s)"
proof (cases "timer_state s = TIMER_STATE_RUNNING")
  case False
  then show ?thesis using timer_update_leaves_running [of s rnd hz now]
    by (simp add: running_inv_def)
next
  case True
  then have f: "timer_start_time_ticks s = t0" "timer_duration_seconds s = sec"
      "current_progress s \<in> F" "0 \<le> current_progress s" "current_progress s \<le> 1"
      "current_progress s \<le> running_target rnd (pdMS_TO_TICKS hz (sec * 1000)) m"
    using inv by (simp_all add: running_inv_def)
  let ?tot = "pdMS_TO_TICKS hz (sec * 1000)"
  show ?thesis
  proof (cases "?tot \<le> now - t0")
    case fin: True
    have "timer_state (timer_update rnd hz now s) = TIMER_STATE_COMPLETED"
      using timer_update_completes(1) [OF R z o True f(3,4,5), of hz now] fin f(1,2) by simp
    then show ?thesis by (simp add: running_inv_def)
  next
    case early: False
    then have lt: "now - t0 < ?tot" by simp
    define T where "T = running_target rnd ?tot (now - t0)"
    have cT: "current_progress s \<le> T"
      using f(6) running_target_mono [OF R z le, of ?tot] unfolding T_def by linarith
    have T1: "T \<le> 1" unfolding T_def by (rule running_target_le_1 [OF R o lt])
    have e: "now - timer_start_time_ticks s < pdMS_TO_TICKS hz (timer_duration_seconds s * 1000)"
      using lt f(1,2) by simp
    have T': "T = running_target rnd (pdMS_TO_TICKS hz (timer_duration_seconds s * 1000))
                  (now - timer_start_time_ticks s)"
      using f(1,2) by (simp add: T_def)
    note u = timer_update_running [OF R z True f(3,4) e T' cT T1]
    have "current_progress s \<le> current_progress (timer_update rnd hz now s)" by (rule u(2))
    then have "0 \<le> current_progress (timer_update rnd hz now s)" using f(4) by linarith
    moreover have "current_progress (timer_update rnd hz now s) \<le> 1" using u(3) T1 by linarith
    moreover have "timer_start_time_ticks (timer_update rnd hz now s) = t0"
      "timer_duration_seconds (timer_update rnd hz now s) = sec"
      using f(1,2) by (simp_all add: u(1))
    ultimately show ?thesis using u(3,4) unfolding running_inv_def T_def by simp
  qed
qed

lemma running_inv_fold:
  assumes R: "rounds_to_nearest F rnd" and z: "0 \<in> F" and o: "1 \<in> F"
    and inv: "running_inv F rnd hz t0 sec 0 s"
  shows "sorted (map (\<lambda>t. unat (t - t0)) ts) \<Longrightarrow> \<forall>t\<in>set ts. unat (t - t0) \<le> unat m \<Longrightarrow>
         running_inv F rnd hz t0 sec m (fold (timer_update rnd hz) ts s)"
proof (induction ts arbitrary: m rule: rev_induct)
  case Nil
  show ?case using running_inv_weaken [OF R z inv, of m] by simp
next
  case (snoc t ts)
  have s: "sorted (map (\<lambda>t. unat (t - t0)) ts)" and b: "\<forall>x\<in>set ts. unat (x - t0) \<le> unat (t - t0)"
    using snoc.prems(1) by (auto simp: sorted_append)
  have "running_inv F rnd hz t0 sec (t - t0) (fold (timer_update rnd hz) ts s)"
    by (rule snoc.IH [OF s b])
  then have "running_inv F rnd hz t0 sec (t - t0) (timer_update rnd hz t (fold (timer_update rnd hz) ts s))"
    by (rule running_inv_step [OF R z o _ order_refl])
  moreover have "unat (t - t0) \<le> unat m" using snoc.prems(2) by simp
  ultimately show ?case using running_inv_weaken [OF R z] by simp
qed

lemma running_inv_start:
  assumes R: "rounds_to_nearest F rnd" and z: "0 \<in> F"
    and st: "timer_start d t0 s0 = (True, s)"
  shows "running_inv F rnd hz t0 (d * 60) 0 s"
proof -
  have "s = (timer_stop s0)\<lparr> timer_duration_seconds := d * 60, timer_start_time_ticks := t0,
            timer_state := TIMER_STATE_RUNNING, current_progress := 0, target_progress := 0 \<rparr>"
    using st by (simp add: timer_start_def split: if_splits)
  then show ?thesis
    using z running_target_nonneg [OF R z] by (simp add: running_inv_def)
qed

subsection \<open>The length of a preset session in ticks\<close>

lemma unat_ucast_u64: "unat (ucast (w :: u32) :: u64) = unat w"
proof -
  have "unat w < 2 ^ 32" using unsigned_less [of w] by simp
  then have "unat w < 2 ^ 64" by simp
  then show ?thesis by (simp add: unsigned_ucast_eq take_bit_nat_eq_self)
qed

lemma unat_ucast_u32: "unat (ucast (w :: u64) :: u32) = unat w mod 2 ^ 32"
  by (simp add: unsigned_ucast_eq take_bit_eq_mod)

lemma pdMS_TO_TICKS_unat:
  "unat (pdMS_TO_TICKS hz ms) = ((unat ms * unat hz) div 1000) mod 2 ^ 32"
proof -
  have a: "unat ms < 2 ^ 32" "unat hz < 2 ^ 32"
    using unsigned_less [of ms] unsigned_less [of hz] by simp_all
  have "unat ms * unat hz < 2 ^ 32 * 2 ^ 32"
    using a by (intro mult_strict_mono) simp_all
  then have b: "unat ms * unat hz < 2 ^ 64" by simp
  then have m: "unat ((ucast ms :: u64) * ucast hz) = unat ms * unat hz"
    using unat_mult_lem [of "ucast ms :: u64" "ucast hz"] by (simp add: unat_ucast_u64)
  show ?thesis
    by (simp add: pdMS_TO_TICKS_def unat_ucast_u32 unat_div m)
qed

lemma preset_ticks:
  assumes d: "d \<in> set timer_durations" and hz: "hz \<noteq> 0" "hz \<le> 1000"
  shows "unat (pdMS_TO_TICKS hz (d * 60 * 1000)) = unat d * 60 * unat hz"
    and "2 \<le> unat (pdMS_TO_TICKS hz (d * 60 * 1000))"
    and "unat (pdMS_TO_TICKS hz (d * 60 * 1000)) \<le> 2 ^ 24"
proof -
  have h: "1 \<le> unat hz" "unat hz \<le> 1000"
    using hz by (simp_all add: word_le_nat_alt unat_gt_0 Suc_le_eq)
  have dd: "1 \<le> unat d" "unat d \<le> 60" using d by (auto simp: timer_durations_values)
  have d60: "unat (d * 60 * 1000) = unat d * 60000"
    using d by (auto simp: timer_durations_values)
  have le: "unat d * 60 * unat hz \<le> 60 * 60 * 1000"
    using dd h by (intro mult_le_mono) simp_all
  have "unat (pdMS_TO_TICKS hz (d * 60 * 1000)) = (unat d * 60000 * unat hz) div 1000 mod 2 ^ 32"
    unfolding pdMS_TO_TICKS_unat d60 ..
  also have "(unat d * 60000 * unat hz) div 1000 = unat d * 60 * unat hz" by simp
  also have "unat d * 60 * unat hz mod 2 ^ 32 = unat d * 60 * unat hz" using le by simp
  finally show eq: "unat (pdMS_TO_TICKS hz (d * 60 * 1000)) = unat d * 60 * unat hz" .
  have "1 * 60 * 1 \<le> unat d * 60 * unat hz"
    using dd h by (intro mult_le_mono) simp_all
  then show "2 \<le> unat (pdMS_TO_TICKS hz (d * 60 * 1000))" unfolding eq by simp
  show "unat (pdMS_TO_TICKS hz (d * 60 * 1000)) \<le> 2 ^ 24" unfolding eq using le by simp
qed

subsection \<open>A tick while Running\<close>

lemma clamp_progress_fields:
  "target_progress (clamp_progress s) = target_progress s"
  "grace_period_start_ticks (clamp_progress s) = grace_period_start_ticks s"
  by (simp_all add: clamp_progress_def Let_def)

lemma timer_update_completed_progress:
  "timer_state s = TIMER_STATE_COMPLETED \<Longrightarrow> current_progress (timer_update rnd hz t s) = 1"
  by (simp add: timer_update_def Let_def)

text \<open>
  Claim C4: a tick of \<open>timer_update\<close> in the Running state, for arithmetic that rounds to
  nearest on a set of representable values containing \<open>timer_values\<close>. If the elapsed
  ticks have reached the session's length in ticks, the state becomes Completed, the
  current tick count is recorded in \<open>grace_period_start_ticks\<close> and the target is 1.
  Otherwise the state stays Running and the target is the single-precision quotient of
  the elapsed ticks, with 0 replaced by 1, and the session's length in ticks; that target
  is strictly greater than 0.
\<close>

theorem running_tick:
  assumes "rounds_to_nearest F rnd" and "timer_values \<subseteq> F"
    and "timer_state s = TIMER_STATE_RUNNING"
  shows "(pdMS_TO_TICKS hz (timer_duration_seconds s * 1000) \<le> now - timer_start_time_ticks s \<longrightarrow>
            timer_state (timer_update rnd hz now s) = TIMER_STATE_COMPLETED \<and>
            grace_period_start_ticks (timer_update rnd hz now s) = now \<and>
            target_progress (timer_update rnd hz now s) = 1)
       \<and> (now - timer_start_time_ticks s < pdMS_TO_TICKS hz (timer_duration_seconds s * 1000) \<longrightarrow>
            timer_state (timer_update rnd hz now s) = TIMER_STATE_RUNNING \<and>
            target_progress (timer_update rnd hz now s) =
              fdiv rnd
                (float_of_u32 rnd (if now - timer_start_time_ticks s = 0 then 1
                                   else now - timer_start_time_ticks s))
                (float_of_u32 rnd (pdMS_TO_TICKS hz (timer_duration_seconds s * 1000))) \<and>
            0 < target_progress (timer_update rnd hz now s))"
proof (intro conjI impI)
  assume a: "pdMS_TO_TICKS hz (timer_duration_seconds s * 1000) \<le> now - timer_start_time_ticks s"
  show "timer_state (timer_update rnd hz now s) = TIMER_STATE_COMPLETED"
    using assms(3) a by (simp add: timer_update_def Let_def clamp_progress_state)
  show "grace_period_start_ticks (timer_update rnd hz now s) = now"
    using assms(3) a by (simp add: timer_update_def Let_def clamp_progress_fields)
  show "target_progress (timer_update rnd hz now s) = 1"
    using assms(3) a by (simp add: timer_update_def Let_def clamp_progress_fields)
next
  assume a: "now - timer_start_time_ticks s < pdMS_TO_TICKS hz (timer_duration_seconds s * 1000)"
  then have n: "\<not> pdMS_TO_TICKS hz (timer_duration_seconds s * 1000) \<le> now - timer_start_time_ticks s"
    by simp
  show "timer_state (timer_update rnd hz now s) = TIMER_STATE_RUNNING"
    using assms(3) n by (simp add: timer_update_def Let_def clamp_progress_state)
  show t: "target_progress (timer_update rnd hz now s) =
      fdiv rnd
        (float_of_u32 rnd (if now - timer_start_time_ticks s = 0 then 1
                           else now - timer_start_time_ticks s))
        (float_of_u32 rnd (pdMS_TO_TICKS hz (timer_duration_seconds s * 1000)))"
    using assms(3) n by (simp add: timer_update_def Let_def clamp_progress_fields)
  show "0 < target_progress (timer_update rnd hz now s)"
    unfolding t using running_target_pos [OF assms(1,2) a] by (simp add: running_target_def)
qed

text \<open>
  Claim C3: a session is started at tick \<open>t0\<close> by a successful \<open>timer_start\<close> and then
  only ticked (no button event), at tick counts whose elapsed time since \<open>t0\<close> does not
  decrease. At every tick that finds the timer Running, the value reported by
  \<open>timer_get_progress\<close> after the tick is at least the value before it. If the elapsed
  ticks are below the session's length, the state stays Running and, for a tick rate of
  1 to 1000 Hz, the reported progress is below 1. Otherwise the state becomes Completed
  at this tick, and the progress reported after the next tick, whenever it comes, is
  exactly 1. Arithmetic rounds to nearest on a set of representable values containing
  \<open>timer_values\<close>.
\<close>

theorem progress_monotone_while_running:
  assumes R: "rounds_to_nearest F rnd" and F: "timer_values \<subseteq> F"
    and st: "timer_start d t0 s0 = (True, s1)"
    and srt: "sorted (map (\<lambda>t. unat (t - t0)) (ts @ [now]))"
    and run: "timer_state (fold (timer_update rnd hz) ts s1) = TIMER_STATE_RUNNING"
  shows "timer_get_progress (fold (timer_update rnd hz) ts s1)
           \<le> timer_get_progress (fold (timer_update rnd hz) (ts @ [now]) s1)
       \<and> (if now - t0 < pdMS_TO_TICKS hz (d * 60 * 1000)
           then timer_get_state (fold (timer_update rnd hz) (ts @ [now]) s1) = TIMER_STATE_RUNNING
              \<and> (hz \<noteq> 0 \<and> hz \<le> 1000 \<longrightarrow>
                   timer_get_progress (fold (timer_update rnd hz) (ts @ [now]) s1) < 1)
           else timer_get_state (fold (timer_update rnd hz) (ts @ [now]) s1) = TIMER_STATE_COMPLETED
              \<and> (\<forall>t. timer_get_progress
                        (timer_update rnd hz t (fold (timer_update rnd hz) (ts @ [now]) s1)) = 1))"
proof -
  define s where "s = fold (timer_update rnd hz) ts s1"
  define s' where "s' = timer_update rnd hz now s"
  let ?tot = "pdMS_TO_TICKS hz (d * 60 * 1000)"
  have z: "0 \<in> F" and o: "1 \<in> F" using F by (auto simp: timer_values_def)
  have d: "d \<in> set timer_durations"
    using st by (simp add: timer_start_def valid_duration_iff split: if_splits)
  have srt': "sorted (map (\<lambda>t. unat (t - t0)) ts)" "\<forall>t\<in>set ts. unat (t - t0) \<le> unat (now - t0)"
    using srt by (auto simp: sorted_append)
  have "running_inv F rnd hz t0 (d * 60) (now - t0) s"
    unfolding s_def by (rule running_inv_fold [OF R z o running_inv_start [OF R z st] srt'])
  then have f: "timer_start_time_ticks s = t0" "timer_duration_seconds s = d * 60"
      "current_progress s \<in> F" "0 \<le> current_progress s" "current_progress s \<le> 1"
      "current_progress s \<le> running_target rnd ?tot (now - t0)"
    using run by (simp_all add: running_inv_def s_def)
  have run': "timer_state s = TIMER_STATE_RUNNING" using run by (simp add: s_def)
  have main: "current_progress s \<le> current_progress s'
       \<and> (if now - t0 < ?tot
           then timer_state s' = TIMER_STATE_RUNNING
              \<and> (hz \<noteq> 0 \<and> hz \<le> 1000 \<longrightarrow> current_progress s' < 1)
           else timer_state s' = TIMER_STATE_COMPLETED
              \<and> (\<forall>t. current_progress (timer_update rnd hz t s') = 1))"
  proof (cases "now - t0 < ?tot")
    case True
    define T where "T = running_target rnd ?tot (now - t0)"
    have e: "now - timer_start_time_ticks s < pdMS_TO_TICKS hz (timer_duration_seconds s * 1000)"
      using True f(1,2) by simp
    have T': "T = running_target rnd (pdMS_TO_TICKS hz (timer_duration_seconds s * 1000))
                  (now - timer_start_time_ticks s)"
      using f(1,2) by (simp add: T_def)
    have cT: "current_progress s \<le> T" using f(6) by (simp add: T_def)
    have T1: "T \<le> 1" unfolding T_def by (rule running_target_le_1 [OF R o True])
    note u = timer_update_running [OF R z run' f(3,4) e T' cT T1, folded s'_def]
    have "timer_state s' = TIMER_STATE_RUNNING" using run' by (simp add: u(1))
    moreover have "current_progress s' < 1" if "hz \<noteq> 0 \<and> hz \<le> 1000"
    proof -
      have "T < 1" unfolding T_def
        using running_target_lt_1 [OF R F True] preset_ticks(2,3) [OF d] that by simp
      then show ?thesis using u(3) by linarith
    qed
    ultimately show ?thesis using True u(2) by simp
  next
    case False
    then have fin: "pdMS_TO_TICKS hz (timer_duration_seconds s * 1000) \<le> now - timer_start_time_ticks s"
      using f(1,2) by simp
    note u = timer_update_completes [OF R z o run' f(3,4,5) fin, folded s'_def]
    have c: "timer_state s' = TIMER_STATE_COMPLETED" by (simp add: u(1))
    then have "\<forall>t. current_progress (timer_update rnd hz t s') = 1"
      by (simp add: timer_update_completed_progress)
    then show ?thesis using False c u(2) by simp
  qed
  show ?thesis using main unfolding s'_def s_def
    by (simp add: timer_get_progress_def timer_get_state_def)
qed

theorem running_tick_witness:
  "target_progress (timer_update (\<lambda>x. x) 100 1010
      (timer_init\<lparr> timer_state := TIMER_STATE_RUNNING, timer_duration_seconds := 900,
                   timer_start_time_ticks := 1000 \<rparr>)) = 1 / 9000
   \<and> target_progress (timer_update (\<lambda>x. x) 100 1000
      (timer_init\<lparr> timer_state := TIMER_STATE_RUNNING, timer_duration_seconds := 900,
                   timer_start_time_ticks := 1000 \<rparr>)) = 1 / 90000
   \<and> timer_state (timer_update (\<lambda>x. x) 100 91000
      (timer_init\<lparr> timer_state := TIMER_STATE_RUNNING, timer_duration_seconds := 900,
                   timer_start_time_ticks := 1000 \<rparr>)) = TIMER_STATE_COMPLETED
   \<and> grace_period_start_ticks (timer_update (\<lambda>x. x) 100 91000
      (timer_init\<lparr> timer_state := TIMER_STATE_RUNNING, timer_duration_seconds := 900,
                   timer_start_time_ticks := 1000 \<rparr>)) = 91000
   \<and> 0 < target_progress (timer_update nearest32 100 1000
      (timer_init\<lparr> timer_state := TIMER_STATE_RUNNING, timer_duration_seconds := 900,
                   timer_start_time_ticks := 1000 \<rparr>))"
proof -
  let ?s = "timer_init\<lparr> timer_state := TIMER_STATE_RUNNING, timer_duration_seconds := 900,
                   timer_start_time_ticks := 1000 \<rparr>"
  have r: "timer_state ?s = TIMER_STATE_RUNNING" by simp
  have F: "timer_values \<subseteq> UNIV" by simp
  have tot: "pdMS_TO_TICKS 100 900000 = 90000" by (simp add: pdMS_TO_TICKS_def)
  show ?thesis
    using running_tick [OF exact_rounding F r, of 100 1010]
      running_tick [OF exact_rounding F r, of 100 1000]
      running_tick [OF exact_rounding F r, of 100 91000]
      running_tick [OF nearest32_rounds timer_values_binary32 r, of 100 1000]
    by (simp add: tot fdiv_def float_of_u32_def)
qed

theorem progress_monotone_while_running_witness:
  "timer_get_progress (fold (timer_update (\<lambda>x. x) 100) [1010] (snd (timer_start 15 1000 timer_init)))
     \<le> timer_get_progress
          (fold (timer_update (\<lambda>x. x) 100) [1010, 1020] (snd (timer_start 15 1000 timer_init)))
   \<and> timer_get_progress
          (fold (timer_update (\<lambda>x. x) 100) [1010, 1020] (snd (timer_start 15 1000 timer_init))) < 1
   \<and> timer_get_state
          (fold (timer_update (\<lambda>x. x) 100) [1010, 1020] (snd (timer_start 15 1000 timer_init)))
       = TIMER_STATE_RUNNING
   \<and> timer_get_state
          (fold (timer_update (\<lambda>x. x) 100) [1010, 7000] (snd (timer_start 1 1000 timer_init)))
       = TIMER_STATE_COMPLETED
   \<and> timer_get_progress (timer_update (\<lambda>x. x) 100 7100
          (fold (timer_update (\<lambda>x. x) 100) [1010, 7000] (snd (timer_start 1 1000 timer_init))))
       = 1
   \<and> timer_get_progress (snd (timer_start 1 1000 timer_init))
     \<le> timer_get_progress (timer_update nearest32 100 1010 (snd (timer_start 1 1000 timer_init)))
   \<and> timer_get_progress (timer_update nearest32 100 1010 (snd (timer_start 1 1000 timer_init))) < 1
   \<and> timer_get_state (timer_update nearest32 100 7000 (snd (timer_start 1 1000 timer_init)))
       = TIMER_STATE_COMPLETED"
proof -
  have F: "timer_values \<subseteq> UNIV" by simp
  have tot: "pdMS_TO_TICKS 100 900000 = 90000" "pdMS_TO_TICKS 100 60000 = 6000"
    by (simp_all add: pdMS_TO_TICKS_def)
  have st: "timer_start 15 1000 timer_init = (True, snd (timer_start 15 1000 timer_init))"
    "timer_start 1 1000 timer_init = (True, snd (timer_start 1 1000 timer_init))"
    by (simp_all add: timer_start_def timer_durations_values)
  have srt: "sorted (map (\<lambda>t. unat (t - (1000::u32))) ([1010] @ [1020]))"
    "sorted (map (\<lambda>t. unat (t - (1000::u32))) ([1010] @ [7000]))"
    "sorted (map (\<lambda>t. unat (t - (1000::u32))) ([] @ [1010]))"
    "sorted (map (\<lambda>t. unat (t - (1000::u32))) ([] @ [7000]))"
    by simp_all
  have run: "timer_state (fold (timer_update (\<lambda>x. x) 100) [1010] (snd (timer_start 15 1000 timer_init)))
               = TIMER_STATE_RUNNING"
    "timer_state (fold (timer_update (\<lambda>x. x) 100) [1010] (snd (timer_start 1 1000 timer_init)))
               = TIMER_STATE_RUNNING"
    "timer_state (fold (timer_update nearest32 100) [] (snd (timer_start 1 1000 timer_init)))
               = TIMER_STATE_RUNNING"
    by (simp_all add: timer_start_def timer_durations_values timer_init_def timer_stop_def
        timer_update_def tot clamp_progress_state)
  show ?thesis
    using progress_monotone_while_running [OF exact_rounding F st(1) srt(1) run(1)]
      progress_monotone_while_running [OF exact_rounding F st(2) srt(2) run(2)]
      progress_monotone_while_running [OF nearest32_rounds timer_values_binary32 st(2) srt(3) run(3)]
      progress_monotone_while_running [OF nearest32_rounds timer_values_binary32 st(2) srt(4) run(3)]
    by (simp add: tot)
qed

section \<open>Properties of the input classifier\<close>

subsection \<open>Debounce\<close>

lemma button_task_events_le_1: "length (snd (button_task hz t ev st)) \<le> 1"
  by (simp add: button_task_def Let_def split: option.splits)

lemma button_task_ignored:
  assumes "find_button_index (ucast (gpio_num ev)) = Some b"
    and "t - last_debounce_time st b \<le> pdMS_TO_TICKS hz DEBOUNCE_MS"
  shows "button_task hz t ev st = (st, [])"
  using assms by (simp add: button_task_def Let_def not_less [symmetric])

lemma button_task_unknown:
  assumes "find_button_index (ucast (gpio_num ev)) = None"
  shows "button_task hz t ev st = (st, [])"
  using assms by (simp add: button_task_def)

lemma button_task_accepted_stamp:
  assumes "find_button_index (ucast (gpio_num ev)) = Some b"
    and "t - last_debounce_time st b > pdMS_TO_TICKS hz DEBOUNCE_MS"
  shows "last_debounce_time (fst (button_task hz t ev st)) b = t"
  using assms by (simp add: button_task_def Let_def)

lemma find_button_index_10: "find_button_index 10 = Some 0"
  by (simp add: find_button_index_def button_gpios_def BUTTON_SW0_GPIO_def)

lemma debounce_ticks_100: "pdMS_TO_TICKS 100 DEBOUNCE_MS = 5"
  by (simp add: pdMS_TO_TICKS_def DEBOUNCE_MS_def)

text \<open>
  Claim C8: the debounce window is \<open>pdMS_TO_TICKS(DEBOUNCE_MS)\<close> ticks. An edge of a button
  that arrives within the window of the button's last accepted edge is ignored entirely:
  \<open>button_task\<close> returns the variables unchanged (state, timing and debounce stamp) and
  no event. Two consecutive edges on the same pin that are within the window of each
  other produce at most one event between them, and if the first was accepted the
  second is ignored entirely.
\<close>

theorem debounce_window:
  assumes "gpio_num ev2 = gpio_num ev1"
    and "t2 - t1 \<le> pdMS_TO_TICKS hz DEBOUNCE_MS"
  shows "(\<forall>b. find_button_index (ucast (gpio_num ev1)) = Some b \<and>
              t1 - last_debounce_time st b \<le> pdMS_TO_TICKS hz DEBOUNCE_MS \<longrightarrow>
              button_task hz t1 ev1 st = (st, []))
       \<and> length (snd (button_run hz [Gpio_event ev1 t1, Gpio_event ev2 t2] st)) \<le> 1
       \<and> (\<forall>b. find_button_index (ucast (gpio_num ev1)) = Some b \<and>
              pdMS_TO_TICKS hz DEBOUNCE_MS < t1 - last_debounce_time st b \<longrightarrow>
              button_task hz t2 ev2 (fst (button_task hz t1 ev1 st))
                = (fst (button_task hz t1 ev1 st), []))"
proof (intro conjI allI impI)
  fix b
  assume "find_button_index (ucast (gpio_num ev1)) = Some b \<and>
          t1 - last_debounce_time st b \<le> pdMS_TO_TICKS hz DEBOUNCE_MS"
  then show "button_task hz t1 ev1 st = (st, [])" by (simp add: button_task_ignored)
next
  fix b
  assume a: "find_button_index (ucast (gpio_num ev1)) = Some b \<and>
          pdMS_TO_TICKS hz DEBOUNCE_MS < t1 - last_debounce_time st b"
  then have "last_debounce_time (fst (button_task hz t1 ev1 st)) b = t1"
    by (simp add: button_task_accepted_stamp)
  then show "button_task hz t2 ev2 (fst (button_task hz t1 ev1 st))
                = (fst (button_task hz t1 ev1 st), [])"
    using a assms by (intro button_task_ignored [of _ b]) simp_all
next
  show "length (snd (button_run hz [Gpio_event ev1 t1, Gpio_event ev2 t2] st)) \<le> 1"
  proof (cases "find_button_index (ucast (gpio_num ev1))")
    case None
    then show ?thesis
      using button_task_events_le_1 [of hz t2 ev2 st] by (simp add: button_task_unknown Let_def)
  next
    case (Some b)
    show ?thesis
    proof (cases "pdMS_TO_TICKS hz DEBOUNCE_MS < t1 - last_debounce_time st b")
      case True
      then have "last_debounce_time (fst (button_task hz t1 ev1 st)) b = t1"
        using Some by (simp add: button_task_accepted_stamp)
      then have "button_task hz t2 ev2 (fst (button_task hz t1 ev1 st))
                = (fst (button_task hz t1 ev1 st), [])"
        using Some assms by (intro button_task_ignored [of _ b]) simp_all
      then show ?thesis
        using button_task_events_le_1 [of hz t1 ev1 st] by (simp add: Let_def)
    next
      case False
      then have "button_task hz t1 ev1 st = (st, [])"
        using Some by (simp add: button_task_ignored)
      then show ?thesis
        using button_task_events_le_1 [of hz t2 ev2 st] by (simp add: Let_def)
    qed
  qed
qed

theorem debounce_window_witness:
  "length (snd (button_run 100
      [Gpio_event \<lparr> gpio_num = 10, level = 1 \<rparr> 1000,
       Gpio_event \<lparr> gpio_num = 10, level = 0 \<rparr> 1003]
      (button_register_callback button_init))) \<le> 1
   \<and> button_task 100 1003 \<lparr> gpio_num = 10, level = 0 \<rparr>
        (fst (button_task 100 1000 \<lparr> gpio_num = 10, level = 1 \<rparr>
               (button_register_callback button_init)))
     = (fst (button_task 100 1000 \<lparr> gpio_num = 10, level = 1 \<rparr>
               (button_register_callback button_init)), [])
   \<and> button_task 100 3 \<lparr> gpio_num = 10, level = 1 \<rparr> (button_register_callback button_init)
     = (button_register_callback button_init, [])"
proof -
  let ?ev1 = "\<lparr> gpio_num = 10, level = 1 \<rparr> :: gpio_event_t"
  let ?ev2 = "\<lparr> gpio_num = 10, level = 0 \<rparr> :: gpio_event_t"
  let ?st = "button_register_callback button_init"
  have g: "gpio_num ?ev2 = gpio_num ?ev1" "gpio_num ?ev1 = gpio_num ?ev1" by simp_all
  have w: "(1003 :: u32) - 1000 \<le> pdMS_TO_TICKS 100 DEBOUNCE_MS"
    "(3 :: u32) - 3 \<le> pdMS_TO_TICKS 100 DEBOUNCE_MS"
    by (simp_all add: debounce_ticks_100)
  have l: "last_debounce_time ?st 0 = 0"
    by (simp add: button_register_callback_def button_init_def)
  show ?thesis
    using debounce_window [OF g(1) w(1), of ?st] debounce_window [OF g(2) w(2), of ?st]
    by (simp add: find_button_index_10 debounce_ticks_100 l Let_def)
qed

subsection \<open>Long presses\<close>

lemma find_button_index_lt: "find_button_index g = Some b \<Longrightarrow> b < NUM_BUTTONS"
  by (simp add: find_button_index_def button_gpios_def NUM_BUTTONS_def split: if_splits)

lemma events_of_append: "events_of b (xs @ ys) = events_of b xs @ events_of b ys"
  by (simp add: events_of_def)

lemma long_press_check_frame:
  "last_debounce_time (fst (long_press_check hz t i acc)) = last_debounce_time (fst acc)"
  "event_callback (fst (long_press_check hz t i acc)) = event_callback (fst acc)"
  by (simp_all add: long_press_check_def Let_def)

lemma long_press_check_other:
  assumes "i \<noteq> b"
  shows "button_states (fst (long_press_check hz t i acc)) b = button_states (fst acc) b"
    and "events_of b (snd (long_press_check hz t i acc)) = events_of b (snd acc)"
  using assms by (simp_all add: long_press_check_def Let_def events_of_def)

lemma long_press_check_at:
  "button_states (fst (long_press_check hz t b acc)) b =
     (if fires hz t (button_states (fst acc) b)
      then (button_states (fst acc) b)\<lparr> event_sent := True \<rparr> else button_states (fst acc) b)"
  "events_of b (snd (long_press_check hz t b acc)) =
     events_of b (snd acc) @
     (if fires hz t (button_states (fst acc) b) \<and> event_callback (fst acc)
      then [(b, BUTTON_PRESS_LONG)] else [])"
  by (simp_all add: long_press_check_def Let_def events_of_def fires_def)

lemma sweep_fold_frame:
  "last_debounce_time (fst (fold (long_press_check hz t) is acc)) = last_debounce_time (fst acc)"
  "event_callback (fst (fold (long_press_check hz t) is acc)) = event_callback (fst acc)"
  by (induction "is" arbitrary: acc) (simp_all add: long_press_check_frame)

lemma sweep_fold_other:
  assumes "b \<notin> set is"
  shows "button_states (fst (fold (long_press_check hz t) is acc)) b = button_states (fst acc) b"
    and "events_of b (snd (fold (long_press_check hz t) is acc)) = events_of b (snd acc)"
  using assms by (induction "is" arbitrary: acc) (simp_all add: long_press_check_other)

lemma sweep_fold_at:
  assumes "distinct is" and "b \<in> set is"
  shows "button_states (fst (fold (long_press_check hz t) is acc)) b =
     (if fires hz t (button_states (fst acc) b)
      then (button_states (fst acc) b)\<lparr> event_sent := True \<rparr> else button_states (fst acc) b)
   \<and> events_of b (snd (fold (long_press_check hz t) is acc)) =
     events_of b (snd acc) @
     (if fires hz t (button_states (fst acc) b) \<and> event_callback (fst acc)
      then [(b, BUTTON_PRESS_LONG)] else [])"
  using assms
proof (induction "is" arbitrary: acc)
  case Nil
  then show ?case by simp
next
  case (Cons i "is")
  show ?case
  proof (cases "i = b")
    case True
    then have "b \<notin> set is" using Cons.prems(1) by simp
    then show ?thesis
      using True sweep_fold_other [of b "is" hz t "long_press_check hz t b acc"]
      by (simp add: long_press_check_at)
  next
    case False
    then have "distinct is" "b \<in> set is" using Cons.prems by auto
    then show ?thesis
      using Cons.IH [of "long_press_check hz t i acc"] False
      by (simp add: long_press_check_other long_press_check_frame)
  qed
qed

lemma sweep_at:
  assumes "b < NUM_BUTTONS"
  shows "button_states (fst (button_long_press_check_task hz t st)) b =
     (if fires hz t (button_states st b)
      then (button_states st b)\<lparr> event_sent := True \<rparr> else button_states st b)"
    and "events_of b (snd (button_long_press_check_task hz t st)) =
     (if fires hz t (button_states st b) \<and> event_callback st
      then [(b, BUTTON_PRESS_LONG)] else [])"
    and "last_debounce_time (fst (button_long_press_check_task hz t st)) = last_debounce_time st"
    and "event_callback (fst (button_long_press_check_task hz t st)) = event_callback st"
  using assms sweep_fold_at [of "[0..<NUM_BUTTONS]" b hz t "(st, [])"]
  by (simp_all add: button_long_press_check_task_def sweep_fold_frame events_of_def)

lemma button_task_other:
  assumes "find_button_index (ucast (gpio_num ev)) \<noteq> Some b"
  shows "button_states (fst (button_task hz t ev st)) b = button_states st b"
    and "last_debounce_time (fst (button_task hz t ev st)) b = last_debounce_time st b"
    and "events_of b (snd (button_task hz t ev st)) = []"
    and "event_callback (fst (button_task hz t ev st)) = event_callback st"
  using assms by (auto simp add: button_task_def Let_def events_of_def split: option.splits)

lemma button_run_append:
  "button_run hz (xs @ ys) st =
     (fst (button_run hz ys (fst (button_run hz xs st))),
      snd (button_run hz xs st) @ snd (button_run hz ys (fst (button_run hz xs st))))"
  by (induction xs arbitrary: st) (simp_all add: Let_def)

lemma button_step_other:
  assumes "\<not> is_edge_of b x" and "b < NUM_BUTTONS"
  shows "button_states (fst (button_step hz x st)) b =
           (case x of
              Long_press_check t \<Rightarrow>
                (if fires hz t (button_states st b)
                 then (button_states st b)\<lparr> event_sent := True \<rparr> else button_states st b)
            | Gpio_event ev t \<Rightarrow> button_states st b)"
    and "events_of b (snd (button_step hz x st)) =
           (case x of
              Long_press_check t \<Rightarrow>
                (if fires hz t (button_states st b) \<and> event_callback st
                 then [(b, BUTTON_PRESS_LONG)] else [])
            | Gpio_event ev t \<Rightarrow> [])"
    and "last_debounce_time (fst (button_step hz x st)) b = last_debounce_time st b"
    and "event_callback (fst (button_step hz x st)) = event_callback st"
  using assms
  by (cases x; simp add: is_edge_of_def button_task_other sweep_at)+

lemma button_run_sent:
  assumes "b < NUM_BUTTONS" and "\<forall>x\<in>set mid. \<not> is_edge_of b x"
    and "event_sent (button_states st b)"
  shows "events_of b (snd (button_run hz mid st)) = []
       \<and> button_states (fst (button_run hz mid st)) b = button_states st b
       \<and> last_debounce_time (fst (button_run hz mid st)) b = last_debounce_time st b
       \<and> event_callback (fst (button_run hz mid st)) = event_callback st"
  using assms(2,3)
proof (induction mid arbitrary: st)
  case Nil
  then show ?case by (simp add: events_of_def)
next
  case (Cons x mid)
  have x: "\<not> is_edge_of b x" using Cons.prems(1) by simp
  have nf: "\<And>t. \<not> fires hz t (button_states st b)" using Cons.prems(2) by (simp add: fires_def)
  have s: "button_states (fst (button_step hz x st)) b = button_states st b"
    "events_of b (snd (button_step hz x st)) = []"
    using button_step_other(1,2) [OF x assms(1), of hz st] nf by (cases x; simp)+
  have "event_sent (button_states (fst (button_step hz x st)) b)" using s(1) Cons.prems(2) by simp
  then show ?case
    using Cons.IH [of "fst (button_step hz x st)"] Cons.prems(1) s
      button_step_other(3,4) [OF x assms(1), of hz st]
    by (simp add: Let_def events_of_append)
qed

lemma crossed_Cons:
  "crossed hz t0 (x # mid) \<longleftrightarrow>
     (case x of Long_press_check t \<Rightarrow> press_duration_ms hz (t - t0) \<ge> LONG_PRESS_MS
              | Gpio_event ev t \<Rightarrow> False) \<or> crossed hz t0 mid"
  by (cases x) (auto simp: crossed_def)

lemma button_run_unsent:
  assumes "b < NUM_BUTTONS" and "\<forall>x\<in>set mid. \<not> is_edge_of b x"
    and "pressed (button_states st b)" and "\<not> event_sent (button_states st b)"
    and "event_callback st"
  shows "events_of b (snd (button_run hz mid st)) =
           (if crossed hz (press_start_time (button_states st b)) mid
            then [(b, BUTTON_PRESS_LONG)] else [])
       \<and> button_states (fst (button_run hz mid st)) b =
           (if crossed hz (press_start_time (button_states st b)) mid
            then (button_states st b)\<lparr> event_sent := True \<rparr> else button_states st b)
       \<and> last_debounce_time (fst (button_run hz mid st)) b = last_debounce_time st b
       \<and> event_callback (fst (button_run hz mid st))"
  using assms(2-)
proof (induction mid arbitrary: st)
  case Nil
  then show ?case by (simp add: events_of_def crossed_def)
next
  case (Cons x mid)
  have x: "\<not> is_edge_of b x" and m: "\<forall>y\<in>set mid. \<not> is_edge_of b y" using Cons.prems(1) by simp_all
  note o = button_step_other [OF x assms(1), of hz st]
  let ?st1 = "fst (button_step hz x st)"
  let ?t0 = "press_start_time (button_states st b)"
  show ?case
  proof (cases "case x of Long_press_check t \<Rightarrow> press_duration_ms hz (t - ?t0) \<ge> LONG_PRESS_MS
                        | Gpio_event ev t \<Rightarrow> False")
    case True
    then obtain t where xt: "x = Long_press_check t"
      and c: "press_duration_ms hz (t - ?t0) \<ge> LONG_PRESS_MS"
      by (cases x) simp_all
    have f: "fires hz t (button_states st b)" using c Cons.prems(2,3) by (simp add: fires_def)
    have s1: "button_states ?st1 b = (button_states st b)\<lparr> event_sent := True \<rparr>"
      "events_of b (snd (button_step hz x st)) = [(b, BUTTON_PRESS_LONG)]"
      using o(1,2) f Cons.prems(4) by (simp_all add: xt)
    have "event_sent (button_states ?st1 b)" by (simp add: s1(1))
    note r = button_run_sent [OF assms(1) m this, of hz]
    show ?thesis
      using r s1 o(3,4) Cons.prems(4) True
      by (simp add: Let_def events_of_append crossed_Cons)
  next
    case False
    have nf: "(case x of Long_press_check t \<Rightarrow> fires hz t (button_states st b)
                        | Gpio_event ev t \<Rightarrow> False) = False"
      using False by (cases x) (simp_all add: fires_def)
    have s1: "button_states ?st1 b = button_states st b"
      "events_of b (snd (button_step hz x st)) = []"
      using o(1,2) nf by (cases x; simp)+
    have p: "pressed (button_states ?st1 b)" "\<not> event_sent (button_states ?st1 b)"
      "event_callback ?st1"
      using s1(1) Cons.prems(2,3,4) o(4) by simp_all
    show ?thesis
      using Cons.IH [OF m p] s1 o(3) False
      by (simp add: Let_def events_of_append crossed_Cons)
  qed
qed

lemma button_task_press:
  assumes "find_button_index (ucast (gpio_num ev)) = Some b" and "level ev = 1"
    and "pdMS_TO_TICKS hz DEBOUNCE_MS < t - last_debounce_time st b"
  shows "button_task hz t ev st =
           (st\<lparr> last_debounce_time := (last_debounce_time st)(b := t),
                button_states := (button_states st)
                  (b := (button_states st b)\<lparr> pressed := True, press_start_time := t,
                                                 event_sent := False \<rparr>) \<rparr>, [])"
  using assms by (simp add: button_task_def Let_def)

lemma button_task_release_sent:
  assumes "find_button_index (ucast (gpio_num ev)) = Some b"
    and "event_sent (button_states st b)"
  shows "snd (button_task hz t ev st) = []"
  using assms by (simp add: button_task_def Let_def)

lemma button_run_snoc:
  "snd (button_run hz (xs @ [y]) st) =
     snd (button_run hz xs st) @ snd (button_step hz y (fst (button_run hz xs st)))"
  by (simp add: button_run_append Let_def)

text \<open>
  Claim C7: a press of button \<open>b\<close> is accepted at tick \<open>t0\<close> (a rising edge outside the
  debounce window) with a callback registered; until the release no other edge of that
  button arrives, while sweeps and edges of other buttons are interleaved in any order;
  one of the sweeps finds the hold time at or above \<open>LONG_PRESS_MS\<close>. Then the events for
  button \<open>b\<close> up to the release are exactly one Long event, the release (at any tick
  \<open>t1\<close>) emits no event, and so the whole press yields exactly one Long event and no
  Short one.
\<close>

theorem long_press_once:
  assumes idx: "find_button_index (ucast (gpio_num press)) = Some b"
    and rising: "level press = 1"
    and accepted: "pdMS_TO_TICKS hz DEBOUNCE_MS < t0 - last_debounce_time st b"
    and cb: "event_callback st"
    and mid: "\<forall>x\<in>set mid. \<not> is_edge_of b x"
    and cross: "crossed hz t0 mid"
    and rel: "gpio_num release = gpio_num press"
  shows "events_of b (snd (button_run hz (Gpio_event press t0 # mid) st)) = [(b, BUTTON_PRESS_LONG)]
       \<and> snd (button_task hz t1 release (fst (button_run hz (Gpio_event press t0 # mid) st))) = []
       \<and> events_of b (snd (button_run hz (Gpio_event press t0 # mid @ [Gpio_event release t1]) st))
           = [(b, BUTTON_PRESS_LONG)]"
proof -
  define st1 where "st1 = fst (button_task hz t0 press st)"
  have b: "b < NUM_BUTTONS" by (rule find_button_index_lt [OF idx])
  have p: "button_task hz t0 press st = (st1, [])"
    unfolding st1_def by (simp add: button_task_press [OF idx rising accepted])
  have s1: "pressed (button_states st1 b)" "\<not> event_sent (button_states st1 b)"
    "event_callback st1" "press_start_time (button_states st1 b) = t0"
    unfolding st1_def using cb by (simp_all add: button_task_press [OF idx rising accepted])
  note u = button_run_unsent [OF b mid s1(1,2,3), of hz, unfolded s1(4)]
  define st2 where "st2 = fst (button_run hz mid st1)"
  have e: "events_of b (snd (button_run hz mid st1)) = [(b, BUTTON_PRESS_LONG)]"
    and sent: "event_sent (button_states st2 b)"
    using u cross by (simp_all add: st2_def)
  have run1: "button_run hz (Gpio_event press t0 # mid) st = (st2, snd (button_run hz mid st1))"
    by (simp add: p st2_def Let_def)
  have r: "snd (button_task hz t1 release st2) = []"
    using idx rel by (intro button_task_release_sent [of _ b]) (simp_all add: sent)
  have A: "events_of b (snd (button_run hz (Gpio_event press t0 # mid) st)) = [(b, BUTTON_PRESS_LONG)]"
    unfolding run1 using e by simp
  have B: "snd (button_task hz t1 release (fst (button_run hz (Gpio_event press t0 # mid) st))) = []"
    unfolding run1 using r by simp
  have "snd (button_run hz ((Gpio_event press t0 # mid) @ [Gpio_event release t1]) st)
          = snd (button_run hz mid st1) @ snd (button_task hz t1 release st2)"
    unfolding button_run_snoc run1 by simp
  then have C: "events_of b (snd (button_run hz (Gpio_event press t0 # mid @ [Gpio_event release t1]) st))
          = [(b, BUTTON_PRESS_LONG)]"
    unfolding append_Cons by (simp add: e r events_of_append del: button_run.simps)
  show ?thesis using A B C by blast
qed

theorem long_press_once_witness:
  "events_of 0 (snd (button_run 100
      [Gpio_event \<lparr> gpio_num = 10, level = 1 \<rparr> 100,
       Long_press_check 120, Long_press_check 150, Long_press_check 155,
       Gpio_event \<lparr> gpio_num = 10, level = 0 \<rparr> 170]
      (button_register_callback button_init)))
   = [(0, BUTTON_PRESS_LONG)]
   \<and> snd (button_task 100 170 \<lparr> gpio_num = 10, level = 0 \<rparr>
        (fst (button_run 100
          [Gpio_event \<lparr> gpio_num = 10, level = 1 \<rparr> 100,
           Long_press_check 120, Long_press_check 150, Long_press_check 155]
          (button_register_callback button_init)))) = []"
proof -
  let ?press = "\<lparr> gpio_num = 10, level = 1 \<rparr> :: gpio_event_t"
  let ?release = "\<lparr> gpio_num = 10, level = 0 \<rparr> :: gpio_event_t"
  let ?mid = "[Long_press_check 120, Long_press_check 150, Long_press_check 155]"
  let ?st = "button_register_callback button_init"
  have idx: "find_button_index (ucast (gpio_num ?press)) = Some 0"
    by (simp add: find_button_index_10)
  have rising: "level ?press = 1" by simp
  have accepted: "pdMS_TO_TICKS 100 DEBOUNCE_MS < 100 - last_debounce_time ?st 0"
    by (simp add: debounce_ticks_100 button_register_callback_def button_init_def)
  have cb: "event_callback ?st" by (simp add: button_register_callback_def)
  have mid: "\<forall>x\<in>set ?mid. \<not> is_edge_of 0 x" by (simp add: is_edge_of_def)
  have "press_duration_ms 100 (150 - 100) \<ge> LONG_PRESS_MS"
    by (simp add: press_duration_ms_def LONG_PRESS_MS_def)
  then have cross: "crossed 100 100 ?mid" unfolding crossed_def by (intro exI [of _ 150]) simp
  have rel: "gpio_num ?release = gpio_num ?press" by simp
  show ?thesis
    using long_press_once [OF idx rising accepted cb mid cross rel, of 170] by simp
qed

section \<open>Properties of the renderer's directives\<close>

text \<open>
  Claim C9: \<open>led_set_progress\<close> while a windback to progress mode is pending (not in solid
  mode, \<open>pending_start_transition\<close> set) leaves the windback as it is: the current and
  target progress, the progress colour, the pending colour and the pending flag are
  unchanged, and the pending target becomes the clamped argument whenever the guard lets
  the statements run (it is left alone when the wait for the mutex times out). In any
  state that is not solid mode the call does not start a windback: the current progress
  and the pending flag are unchanged. Repeating a call with the same arguments and the
  same outcome of the guard changes nothing further.
\<close>

theorem set_progress_during_windback:
  "(\<not> solid_mode s \<and> pending_start_transition s \<longrightarrow>
      led_current_progress (led_set_progress lock progress color s) = led_current_progress s
      \<and> led_target_progress (led_set_progress lock progress color s) = led_target_progress s
      \<and> progress_color (led_set_progress lock progress color s) = progress_color s
      \<and> pending_start_color (led_set_progress lock progress color s) = pending_start_color s
      \<and> pending_start_transition (led_set_progress lock progress color s)
      \<and> \<not> solid_mode (led_set_progress lock progress color s)
      \<and> pending_start_progress (led_set_progress lock progress color s) =
          (if lock = Mutex_timeout then pending_start_progress s
           else if progress < 0 then 0 else if progress > 1 then 1 else progress))
   \<and> (\<not> solid_mode s \<longrightarrow>
      led_current_progress (led_set_progress lock progress color s) = led_current_progress s
      \<and> pending_start_transition (led_set_progress lock progress color s) = pending_start_transition s
      \<and> \<not> solid_mode (led_set_progress lock progress color s))
   \<and> led_set_progress lock progress color (led_set_progress lock progress color s)
       = led_set_progress lock progress color s"
  by (cases lock) (auto simp add: led_set_progress_def led_set_progress_locked_def Let_def)

theorem set_progress_during_windback_witness:
  "pending_start_progress
     (led_set_progress Mutex_taken (1 / 4) LED_COLOR_GREEN
        (led_set_progress Mutex_taken (1 / 10) LED_COLOR_GREEN (led_clear_all Mutex_taken led_init)))
     = 1 / 4
   \<and> led_current_progress
     (led_set_progress Mutex_taken (1 / 4) LED_COLOR_GREEN
        (led_set_progress Mutex_taken (1 / 10) LED_COLOR_GREEN (led_clear_all Mutex_taken led_init)))
     = 1
   \<and> pending_start_transition
     (led_set_progress Mutex_taken (1 / 4) LED_COLOR_GREEN
        (led_set_progress Mutex_taken (1 / 10) LED_COLOR_GREEN (led_clear_all Mutex_taken led_init)))"
proof -
  let ?s = "led_set_progress Mutex_taken (1 / 10) LED_COLOR_GREEN (led_clear_all Mutex_taken led_init)"
  have w: "\<not> solid_mode ?s \<and> pending_start_transition ?s" "led_current_progress ?s = 1"
    by (simp_all add: led_set_progress_def led_set_progress_locked_def led_clear_all_def led_init_def)
  show ?thesis
    using set_progress_during_windback [of ?s Mutex_taken "1 / 4" LED_COLOR_GREEN] w by simp
qed

end
